theory Spec2Isabelle
  imports Main "HOL-Library.AList"
begin

section \<open>Data model of the Solidity build driver\<close>

text \<open>
  The driver is TypeScript. Its plain objects (\<open>{ [key: string]: T }\<close>) are modelled as
  association lists whose keys are kept in insertion order: \<open>Object.keys o\<close> is
  \<open>map fst o\<close>, a read \<open>o[k]\<close> is \<open>map_of o k\<close> (\<open>None\<close> for \<open>undefined\<close>) and an
  assignment \<open>o[k] = v\<close> is \<open>AList.update k v o\<close>, which replaces the value of an existing
  key in place and appends a new key at the end. Keys inherited from \<open>Object.prototype\<close>
  and integer-like keys (which JavaScript enumerates first) do not occur among the version
  strings and file paths used as keys here and are not modelled.
  JSON values the driver only passes along (compiler settings, the standard-JSON input,
  a compiled contract, the metadata of a source) are opaque strings.
\<close>

type_synonym 'a obj = "(string \<times> 'a) list"
type_synonym json = string

datatype error =
    NameResolutionError string
  | IOError string
  | SyntaxError string
  | UnsatisfiableVersionError string
  | UnsupportedVersionError string
  | MissingContractError string string
  | CompilationError nat
  | TypeError

record ContractSource =
  source :: string
  path :: string
  absolutePath :: string

record CompilerDescription =
  name :: string
  version :: string
  settings :: json

text \<open>
  A \<open>ContractArtifact\<close> as the driver reads it back from disk and as it writes it.
  Fields whose names the planner's \<open>ContractData\<close> also has carry the suffix \<open>_art\<close>.
  \<open>compilerOutput\<close>, \<open>sources_art\<close> and \<open>sourceTreeHashHex_art\<close> may be \<open>undefined\<close>; the
  constant field \<open>chains: {}\<close> is left out.
\<close>

record ContractArtifact =
  schemaVersion :: string
  contractName_art :: string
  compilerOutput :: "json option"
  sources_art :: "(json obj) option"
  compiler :: CompilerDescription
  sourceTreeHashHex_art :: "string option"

record ContractData =
  currentArtifactIfExists :: "ContractArtifact option"
  sourceTreeHashHex :: string
  contractName :: string

record StandardOutput =
  sources :: "json obj"
  contracts :: "(json obj) obj"

text \<open>Of the standard-JSON input the driver reads the \<open>settings\<close> only.\<close>

record StandardInput =
  settings_in :: json

record CompilationResult =
  input :: StandardInput
  "output" :: StandardOutput

text \<open>
  The eight wrapper classes \<open>SolcWrapperV01\<close> .. \<open>SolcWrapperV08\<close> are one datatype of
  families. A wrapper instance is the family, the version string handed to its constructor
  and the address of the object: \<open>new\<close> takes the next free address of the driver, so two
  wrappers are the identical instance exactly when the records are equal.
\<close>

datatype family = V01 | V02 | V03 | V04 | V05 | V06 | V07 | V08

record SolcWrapper =
  wrapperFamily :: family
  wrapperVersion :: string
  wrapperAddr :: nat

text \<open>The mutable part of a \<open>Compiler\<close> (or \<open>JSONCompiler\<close>) instance.\<close>

record driver =
  solcWrappersByVersion :: "SolcWrapper obj"
  nextAddr :: nat

text \<open>
  What the driver imports from modules that are not part of the sources at hand
  (\<open>@0x/sol-resolver\<close>, \<open>semver\<close>, \<open>./utils/compiler\<close>, \<open>./utils/constants\<close>, the wrapper
  classes), and what it finds on disk, is a parameter of the model, collected in one record:
  \<^item> \<open>resolveTree n\<close>: a fresh \<open>SpyResolver\<close>, \<open>resolve n\<close> and \<open>getSourceTreeHash\<close> on
    the result: the root source, every source the spy recorded, and the hash in hex;
  \<^item> \<open>getAll\<close>: what \<open>NameResolver.getAll\<close> returns;
  \<^item> \<open>resolveJSON n\<close>: a fresh \<open>SpyResolver\<close> over the \<open>JSONNameResolver\<close> and \<open>resolve n\<close>;
    that resolver walks the contracts directory for a file of that name, and the directory
    is not modelled;
  \<^item> \<open>bundleContents s\<close>: \<open>JSON.parse\<close> of a bundle, its \<open>sources\<close> (or the bundle itself
    when it has none), each mapped to its \<open>content\<close>;
  \<^item> \<open>getContractArtifactIfExists dir n\<close>: the artifact that
    \<open>getContractArtifactIfExistsAsync\<close> finds on disk for \<open>n\<close>; the planner makes all its
    reads before the writer's first write, so one function stands for the disk of a run;
  \<^item> \<open>areCompilerSettingsDifferent\<close> and \<open>compileAsync\<close> are the two methods of a wrapper;
  \<^item> the remaining fields carry the name of the function or constant they stand for.
\<close>

record Walk =
  root :: ContractSource
  resolvedContractSources :: "ContractSource list"
  sourceTreeHash :: string

record collaborators =
  resolveTree :: "string \<Rightarrow> error + Walk"
  getAll :: "ContractSource list"
  resolveJSON :: "string \<Rightarrow> error + ContractSource"
  bundleContents :: "string \<Rightarrow> error + string obj"
  getContractArtifactIfExists :: "string \<Rightarrow> string \<Rightarrow> ContractArtifact option"
  getSolcJSVersionList :: "bool \<Rightarrow> error + string obj"
  getSolcJSVersionFromPath :: "string \<Rightarrow> string"
  maxSatisfying :: "string list \<Rightarrow> string \<Rightarrow> string option"
  parseSolidityVersionRange :: "string \<Rightarrow> string"
  getDependencyNameToPackagePath :: "ContractSource list \<Rightarrow> string obj"
  preFetchCSolcJSBinaries :: "string list \<Rightarrow> error option"
  areCompilerSettingsDifferent :: "SolcWrapper \<Rightarrow> json \<Rightarrow> bool"
  compileAsync :: "SolcWrapper \<Rightarrow> string obj \<Rightarrow> string obj \<Rightarrow> error + CompilationResult"
  LATEST_ARTIFACT_VERSION :: string
  SOLIDITY_FILE_EXTENSION :: string

text \<open>
  The options a driver is constructed with, after the defaults have been merged in.
  \<open>solcVersionOpt\<close> is the option \<open>solcVersion\<close>; \<open>contractsOpt\<close> is the option \<open>contracts\<close>,
  \<open>None\<close> for the identifier \<open>*\<close> of all contracts. The options \<open>contractsDir\<close>,
  \<open>compilerSettings\<close> and \<open>shouldSaveStandardInput\<close> are read by the resolvers and the
  wrappers only, or not at all, and are left out.
\<close>

record CompilerOptions =
  artifactsDir :: string
  contractsOpt :: "string list option"
  solcVersionOpt :: "string option"
  useDockerisedSolc :: bool
  isOfflineMode :: bool
  shouldCompileIndependently :: bool

section \<open>Helpers\<close>

definition startsWith :: "string \<Rightarrow> string \<Rightarrow> bool" where
  "startsWith s p = (take (length p) s = p)"

text \<open>
  Node's \<open>path.basename p ext\<close> for POSIX paths that do not end in a separator: the part
  after the last \<open>/\<close>, without \<open>ext\<close> when it ends with \<open>ext\<close> and is longer than it.
\<close>

definition basename :: "string \<Rightarrow> string \<Rightarrow> string" where
  "basename p ext =
     (if ext \<noteq> [] \<and> p = ext then []
      else
        let base = rev (takeWhile (\<lambda>c. c \<noteq> CHR ''/'') (rev p)) in
        if length ext < length base \<and> drop (length base - length ext) base = ext
        then take (length base - length ext) base
        else base)"

text \<open>
  Modelled from the spec: \<open>normalizeSolcVersion\<close> is defined in \<open>./utils/compiler\<close>, which
  is not among the sources; the specification says that normalization strips any
  leading \<open>v\<close>.
\<close>

definition normalizeSolcVersion :: "string \<Rightarrow> string" where
  "normalizeSolcVersion v = (case v of [] \<Rightarrow> [] | c # rest \<Rightarrow> if c = CHR ''v'' then rest else v)"

section \<open>The wrapper registry\<close>

text \<open>\<open>_createSolcInstance\<close>: the family is chosen by the first matching prefix.\<close>

definition createSolcInstance :: "string \<Rightarrow> nat \<Rightarrow> error + SolcWrapper" where
  "createSolcInstance solcVersion addr =
     (if startsWith solcVersion ''0.1.'' then
        Inr \<lparr>wrapperFamily = V01, wrapperVersion = solcVersion, wrapperAddr = addr\<rparr>
      else if startsWith solcVersion ''0.2.'' then
        Inr \<lparr>wrapperFamily = V02, wrapperVersion = solcVersion, wrapperAddr = addr\<rparr>
      else if startsWith solcVersion ''0.3.'' then
        Inr \<lparr>wrapperFamily = V03, wrapperVersion = solcVersion, wrapperAddr = addr\<rparr>
      else if startsWith solcVersion ''0.4.'' then
        Inr \<lparr>wrapperFamily = V04, wrapperVersion = solcVersion, wrapperAddr = addr\<rparr>
      else if startsWith solcVersion ''0.5.'' then
        Inr \<lparr>wrapperFamily = V05, wrapperVersion = solcVersion, wrapperAddr = addr\<rparr>
      else if startsWith solcVersion ''0.6'' then
        Inr \<lparr>wrapperFamily = V06, wrapperVersion = solcVersion, wrapperAddr = addr\<rparr>
      else if startsWith solcVersion ''0.7'' then
        Inr \<lparr>wrapperFamily = V07, wrapperVersion = solcVersion, wrapperAddr = addr\<rparr>
      else if startsWith solcVersion ''0.8'' then
        Inr \<lparr>wrapperFamily = V08, wrapperVersion = solcVersion, wrapperAddr = addr\<rparr>
      else Inl (UnsupportedVersionError solcVersion))"

text \<open>
  \<open>_getSolcWrapperForVersion\<close>: the registered wrapper when there is one (a wrapper object
  is never falsy), otherwise a new instance, registered under the normalized version.
\<close>

definition getSolcWrapperForVersion :: "string \<Rightarrow> driver \<Rightarrow> error + (SolcWrapper \<times> driver)" where
  "getSolcWrapperForVersion solcVersion d =
     (let normalizedVersion = normalizeSolcVersion solcVersion in
      case map_of (solcWrappersByVersion d) normalizedVersion of
        Some w \<Rightarrow> Inr (w, d)
      | None \<Rightarrow>
          (case createSolcInstance normalizedVersion (nextAddr d) of
             Inl e \<Rightarrow> Inl e
           | Inr w \<Rightarrow>
               Inr (w, d\<lparr>solcWrappersByVersion :=
                            AList.update normalizedVersion w (solcWrappersByVersion d),
                          nextAddr := Suc (nextAddr d)\<rparr>)))"

text \<open>The family table of \<open>_createSolcInstance\<close>, as data, for stating what it selects.\<close>

definition familyPrefixes :: "(string \<times> family) list" where
  "familyPrefixes =
     [(''0.1.'', V01), (''0.2.'', V02), (''0.3.'', V03), (''0.4.'', V04), (''0.5.'', V05),
      (''0.6'', V06), (''0.7'', V07), (''0.8'', V08)]"

definition familyOf :: "string \<Rightarrow> family option" where
  "familyOf v = map_option snd (find (\<lambda>(p, f). startsWith v p) familyPrefixes)"

text \<open>A sequence of wrapper requests, for what the registry does over time.\<close>

fun requestAll :: "string list \<Rightarrow> driver \<Rightarrow> error + driver" where
  "requestAll [] d = Inr d"
| "requestAll (v # vs) d =
     (case getSolcWrapperForVersion v d of
        Inl e \<Rightarrow> Inl e
      | Inr (w, d') \<Rightarrow> requestAll vs d')"

definition newDriver :: driver where
  "newDriver = \<lparr>solcWrappersByVersion = [], nextAddr = 0\<rparr>"

section \<open>The \<open>Compiler\<close> class\<close>

subsection \<open>Construction\<close>

text \<open>
  Of the fields the constructor sets, \<open>_artifactsDir\<close>, \<open>_specifiedContracts\<close>,
  \<open>_isOfflineMode\<close> and \<open>_shouldCompileIndependently\<close> are copies of options and are read
  from \<open>opts\<close>. The version pin \<open>_solcVersionIfExists\<close> comes from the environment
  variable \<open>SOLCJS_PATH\<close> when that is defined, and from the option otherwise.
\<close>

record Compiler =
  opts :: CompilerOptions
  solcVersionIfExists :: "string option"

definition newCompiler :: "collaborators \<Rightarrow> string option \<Rightarrow> CompilerOptions \<Rightarrow> Compiler" where
  "newCompiler c SOLCJS_PATH options =
     \<lparr>opts = options,
      solcVersionIfExists =
        (case SOLCJS_PATH of
           Some p \<Rightarrow> Some (getSolcJSVersionFromPath c p)
         | None \<Rightarrow> solcVersionOpt options)\<rparr>"

definition getContractNamesToCompile :: "collaborators \<Rightarrow> Compiler \<Rightarrow> string list" where
  "getContractNamesToCompile c this =
     (case contractsOpt (opts this) of
        None \<Rightarrow> map (\<lambda>s. basename (path s) (SOLIDITY_FILE_EXTENSION c)) (getAll c)
      | Some names \<Rightarrow> names)"

subsection \<open>The cache gate\<close>

text \<open>
  \<open>_shouldCompile\<close>. With an artifact at hand it first asks the registry for the wrapper of
  the artifact's compiler version, which registers a wrapper or throws.
\<close>

definition shouldCompile ::
  "collaborators \<Rightarrow> ContractData \<Rightarrow> driver \<Rightarrow> error + (bool \<times> driver)" where
  "shouldCompile c contractData d =
     (case currentArtifactIfExists contractData of
        None \<Rightarrow> Inr (True, d)
      | Some currentArtifact \<Rightarrow>
          (case getSolcWrapperForVersion (version (compiler currentArtifact)) d of
             Inl e \<Rightarrow> Inl e
           | Inr (solc, d') \<Rightarrow>
               let isUserOnLatestVersion =
                     (schemaVersion currentArtifact = LATEST_ARTIFACT_VERSION c);
                   didCompilerSettingsChange =
                     areCompilerSettingsDifferent c solc (settings (compiler currentArtifact));
                   didSourceChange =
                     (sourceTreeHashHex_art currentArtifact \<noteq> Some (sourceTreeHashHex contractData))
               in Inr (\<not> isUserOnLatestVersion \<or> didCompilerSettingsChange \<or> didSourceChange, d')))"

subsection \<open>Planning\<close>

text \<open>JavaScript truthiness of a string that may be \<open>undefined\<close> or \<open>null\<close>.\<close>

definition truthy :: "string option \<Rightarrow> bool" where
  "truthy s = (case s of None \<Rightarrow> False | Some x \<Rightarrow> x \<noteq> [])"

text \<open>
  The choice of \<open>solcVersion\<close> in the planning loop of \<open>_compileContractsAsync\<close>. A result of
  \<open>semver.maxSatisfying\<close> that is no key of the release index makes
  \<open>normalizeSolcVersion\<close> receive \<open>undefined\<close>, which is a \<open>TypeError\<close> here.
\<close>

definition chooseSolcVersion ::
  "collaborators \<Rightarrow> Compiler \<Rightarrow> string obj \<Rightarrow> string \<Rightarrow> error + string" where
  "chooseSolcVersion c this releases src =
     (if truthy (solcVersionIfExists this) then Inr (the (solcVersionIfExists this))
      else
        let solidityVersion =
              maxSatisfying c (map fst releases) (parseSolidityVersionRange c src)
        in if truthy solidityVersion then
             (case map_of releases (the solidityVersion) of
                None \<Rightarrow> Inl TypeError
              | Some full \<Rightarrow> Inr (normalizeSolcVersion full))
           else Inl (UnsatisfiableVersionError (parseSolidityVersionRange c src)))"

text \<open>
  The planner's variables: \<open>compilationUnitsByVersion\<close>, \<open>contractPathToData\<close> and the
  list \<open>resolvedContractSources\<close> of the function body (here \<open>resolvedSoFar\<close>).
\<close>

record Plan =
  compilationUnitsByVersion :: "(string obj) list obj"
  contractPathToData :: "ContractData obj"
  resolvedSoFar :: "ContractSource list"

definition emptyPlan :: Plan where
  "emptyPlan = \<lparr>compilationUnitsByVersion = [], contractPathToData = [], resolvedSoFar = []\<rparr>"

text \<open>\<open>unit[resolvedContractSource.absolutePath] = resolvedContractSource.source\<close>, for each.\<close>

definition addToUnit :: "ContractSource list \<Rightarrow> string obj \<Rightarrow> string obj" where
  "addToUnit srcs u = fold (\<lambda>s acc. AList.update (absolutePath s) (source s) acc) srcs u"

text \<open>
  The units of a version after one root has been placed: a new unit at the end when
  compiling independently, the first unit (created when there is none) otherwise.
\<close>

definition placeInUnits :: "bool \<Rightarrow> ContractSource list \<Rightarrow> string obj list \<Rightarrow> string obj list" where
  "placeInUnits independently srcs units =
     (if independently then units @ [addToUnit srcs []]
      else (case units of
              [] \<Rightarrow> [addToUnit srcs []]
            | u # rest \<Rightarrow> addToUnit srcs u # rest))"

text \<open>One iteration of the planning loop; \<open>Inr (False, _)\<close> is the \<open>continue\<close> of a skipped contract.\<close>

definition planContract ::
  "collaborators \<Rightarrow> Compiler \<Rightarrow> bool \<Rightarrow> string obj \<Rightarrow> string \<Rightarrow> Plan \<times> driver
     \<Rightarrow> error + (bool \<times> Plan \<times> driver)" where
  "planContract c this independently releases requested s =
     (case resolveTree c requested of
        Inl e \<Rightarrow> Inl e
      | Inr walk \<Rightarrow>
          let contractData =
                \<lparr>currentArtifactIfExists =
                   getContractArtifactIfExists c (artifactsDir (opts this)) requested,
                 sourceTreeHashHex = ''0x'' @ sourceTreeHash walk,
                 contractName = basename requested (SOLIDITY_FILE_EXTENSION c)\<rparr>
          in (case shouldCompile c contractData (snd s) of
                Inl e \<Rightarrow> Inl e
              | Inr (should, d') \<Rightarrow>
                  if \<not> should then Inr (False, fst s, d')
                  else
                    (case chooseSolcVersion c this releases (source (root walk)) of
                       Inl e \<Rightarrow> Inl e
                     | Inr v \<Rightarrow>
                         let units =
                               (case map_of (compilationUnitsByVersion (fst s)) v of
                                  None \<Rightarrow> []
                                | Some us \<Rightarrow> us)
                         in Inr (True,
                                 \<lparr>compilationUnitsByVersion =
                                    AList.update v
                                      (placeInUnits independently (resolvedContractSources walk) units)
                                      (compilationUnitsByVersion (fst s)),
                                  contractPathToData =
                                    AList.update (absolutePath (root walk)) contractData
                                      (contractPathToData (fst s)),
                                  resolvedSoFar =
                                    resolvedSoFar (fst s) @ resolvedContractSources walk\<rparr>,
                                 d'))))"

fun planContracts ::
  "collaborators \<Rightarrow> Compiler \<Rightarrow> bool \<Rightarrow> string obj \<Rightarrow> string list \<Rightarrow> Plan \<times> driver
     \<Rightarrow> error + (Plan \<times> driver)" where
  "planContracts c this independently releases [] s = Inr s"
| "planContracts c this independently releases (n # ns) s =
     (case planContract c this independently releases n s of
        Inl e \<Rightarrow> Inl e
      | Inr (compiled, s') \<Rightarrow> planContracts c this independently releases ns s')"

definition unitCount :: "Plan \<Rightarrow> nat" where
  "unitCount p = sum_list (map (\<lambda>e. length (snd e)) (compilationUnitsByVersion p))"

subsection \<open>Dispatch\<close>

text \<open>
  The two levels of \<open>Promise.all\<close>. Every call is started; the model reports the first
  failure in plan order, where the run rejects with whichever failure comes first in time.
\<close>

fun compileUnits ::
  "collaborators \<Rightarrow> SolcWrapper \<Rightarrow> string obj \<Rightarrow> string obj list \<Rightarrow> error + CompilationResult list" where
  "compileUnits c solc importRemappings [] = Inr []"
| "compileUnits c solc importRemappings (u # us) =
     (case compileAsync c solc u importRemappings of
        Inl e \<Rightarrow> Inl e
      | Inr r \<Rightarrow>
          (case compileUnits c solc importRemappings us of
             Inl e \<Rightarrow> Inl e
           | Inr rs \<Rightarrow> Inr (r # rs)))"

fun compileVersions ::
  "collaborators \<Rightarrow> string obj \<Rightarrow> (string obj) list obj \<Rightarrow> driver
     \<Rightarrow> error + (CompilationResult list list \<times> driver)" where
  "compileVersions c importRemappings [] d = Inr ([], d)"
| "compileVersions c importRemappings (e # es) d =
     (case getSolcWrapperForVersion (fst e) d of
        Inl err \<Rightarrow> Inl err
      | Inr (solc, d') \<Rightarrow>
          (case compileUnits c solc importRemappings (snd e) of
             Inl err \<Rightarrow> Inl err
           | Inr rs \<Rightarrow>
               (case compileVersions c importRemappings es d' of
                  Inl err \<Rightarrow> Inl err
                | Inr (rss, d'') \<Rightarrow> Inr (rs # rss, d''))))"

subsection \<open>Persisting\<close>

text \<open>
  A write of \<open>fsWrapper.writeFileAsync\<close> is the path and the artifact (its JSON text is
  \<open>stringifyWithFormatting\<close> of it). A function that writes returns the writes it made, in
  order, and the error that stopped it, if any.
\<close>

type_synonym fileWrite = "string \<times> ContractArtifact"

definition artifactPath :: "string \<Rightarrow> string \<Rightarrow> string \<Rightarrow> string" where
  "artifactPath dir contractFileName cname =
     dir @ ''/'' @ contractFileName @ ''-'' @ cname @ ''.json''"

definition newArtifact ::
  "collaborators \<Rightarrow> string \<Rightarrow> json option \<Rightarrow> string \<Rightarrow> StandardInput \<Rightarrow> StandardOutput
     \<Rightarrow> ContractArtifact" where
  "newArtifact c cname compiledContract v compilerInput compilerOutput' =
     \<lparr>schemaVersion = LATEST_ARTIFACT_VERSION c,
      contractName_art = cname,
      compilerOutput = compiledContract,
      sources_art = Some (sources compilerOutput'),
      compiler = \<lparr>name = ''solc'', version = v, settings = settings_in compilerInput\<rparr>,
      sourceTreeHashHex_art = None\<rparr>"

text \<open>\<open>o.contracts[contractPath] || o.contracts['']\<close>: an object, when there, is truthy.\<close>

definition contractsOfPath :: "StandardOutput \<Rightarrow> string \<Rightarrow> (json obj) option" where
  "contractsOfPath out contractPath =
     (case map_of (contracts out) contractPath of
        Some m \<Rightarrow> Some m
      | None \<Rightarrow> map_of (contracts out) [])"

text \<open>The loop of \<open>_persistCompiledContractAsync\<close> over the keys of \<open>compilerOutput.sources\<close>.\<close>

fun persistEach ::
  "collaborators \<Rightarrow> string \<Rightarrow> string \<Rightarrow> string \<Rightarrow> StandardInput \<Rightarrow> StandardOutput
     \<Rightarrow> string list \<Rightarrow> fileWrite list \<times> error option" where
  "persistEach c dir contractFileName v compilerInput out [] = ([], None)"
| "persistEach c dir contractFileName v compilerInput out (contractPath # rest) =
     (let cname = basename contractPath (SOLIDITY_FILE_EXTENSION c) in
      case contractsOfPath out contractPath of
        None \<Rightarrow> ([], Some TypeError)
      | Some m \<Rightarrow>
          (case persistEach c dir contractFileName v compilerInput out rest of
             (ws, r) \<Rightarrow>
               ((artifactPath dir contractFileName cname,
                 newArtifact c cname (map_of m cname) v compilerInput out) # ws, r)))"

definition persistCompiledContract ::
  "collaborators \<Rightarrow> string \<Rightarrow> string \<Rightarrow> string \<Rightarrow> StandardInput \<Rightarrow> StandardOutput
     \<Rightarrow> fileWrite list \<times> error option" where
  "persistCompiledContract c dir contractFileName v compilerInput out =
     (if map_of (sources out) [] = None then
        persistEach c dir contractFileName v compilerInput out (map fst (sources out))
      else
        (case map_of (contracts out) [] of
           None \<Rightarrow> ([], Some TypeError)
         | Some m \<Rightarrow>
             ([(artifactPath dir contractFileName contractFileName,
                newArtifact c contractFileName (map_of m contractFileName) v compilerInput out)],
              None)))"

subsection \<open>The artifact writer\<close>

text \<open>
  The writer's state: \<open>artifactCache\<close>, the writes made so far, and the calls of
  \<open>_persistCompiledContractAsync\<close> made so far, each noted with the \<open>contractPath\<close> and the
  \<open>unitSize\<close> of the loop iteration that made it.
\<close>

record PersistCall =
  forPath :: string
  fromUnitSize :: nat
  fileName :: string
  withVersion :: string
  withResult :: CompilationResult

record Writer =
  artifactCache :: "nat obj"
  persistCalls :: "PersistCall list"
  written :: "fileWrite list"

definition emptyWriter :: Writer where
  "emptyWriter = \<lparr>artifactCache = [], persistCalls = [], written = []\<rparr>"

text \<open>\<open>artifactCache[contractPath] !== undefined && artifactCache[contractPath] <= unitSize\<close>.\<close>

definition alreadySmaller :: "nat obj \<Rightarrow> string \<Rightarrow> nat \<Rightarrow> bool" where
  "alreadySmaller cache contractPath unitSize =
     (case map_of cache contractPath of None \<Rightarrow> False | Some s \<Rightarrow> s \<le> unitSize)"

text \<open>The innermost loop, over the paths of one unit.\<close>

fun writePaths ::
  "collaborators \<Rightarrow> string \<Rightarrow> ContractData obj \<Rightarrow> string \<Rightarrow> CompilationResult \<Rightarrow> nat
     \<Rightarrow> string list \<Rightarrow> Writer \<Rightarrow> Writer \<times> error option" where
  "writePaths c dir pathToData v compilationResult unitSize [] w = (w, None)"
| "writePaths c dir pathToData v compilationResult unitSize (contractPath # rest) w =
     (case map_of pathToData contractPath of
        None \<Rightarrow> writePaths c dir pathToData v compilationResult unitSize rest w
      | Some contractData \<Rightarrow>
          (case contractsOfPath (output compilationResult) contractPath of
             None \<Rightarrow> (w, Some TypeError)
           | Some m \<Rightarrow>
               (case map_of m (contractName contractData) of
                  None \<Rightarrow> (w, Some (MissingContractError (contractName contractData) contractPath))
                | Some compiledContract \<Rightarrow>
                    if alreadySmaller (artifactCache w) contractPath unitSize
                    then writePaths c dir pathToData v compilationResult unitSize rest w
                    else
                      (case persistCompiledContract c dir (contractName contractData) v
                              (input compilationResult) (output compilationResult) of
                         (ws, r) \<Rightarrow>
                           (let w' =
                                  \<lparr>artifactCache =
                                     AList.update contractPath unitSize (artifactCache w),
                                   persistCalls =
                                     persistCalls w @
                                       [\<lparr>forPath = contractPath, fromUnitSize = unitSize,
                                         fileName = contractName contractData, withVersion = v,
                                         withResult = compilationResult\<rparr>],
                                   written = written w @ ws\<rparr>
                            in case r of
                                 Some e \<Rightarrow> (w', Some e)
                               | None \<Rightarrow>
                                   writePaths c dir pathToData v compilationResult unitSize
                                     rest w')))))"

text \<open>
  The loop over the units \<open>j\<close> of one version; \<open>compilationResults[i]\<close> has one result for
  each unit, so the loop runs over the pairs.
\<close>

fun writeUnits ::
  "collaborators \<Rightarrow> string \<Rightarrow> ContractData obj \<Rightarrow> string
     \<Rightarrow> (string obj \<times> CompilationResult) list \<Rightarrow> Writer \<Rightarrow> Writer \<times> error option" where
  "writeUnits c dir pathToData v [] w = (w, None)"
| "writeUnits c dir pathToData v (ur # urs) w =
     (case writePaths c dir pathToData v (snd ur) (length (fst ur)) (map fst (fst ur)) w of
        (w', Some e) \<Rightarrow> (w', Some e)
      | (w', None) \<Rightarrow> writeUnits c dir pathToData v urs w')"

text \<open>The loop over the versions \<open>i\<close>.\<close>

fun writeVersions ::
  "collaborators \<Rightarrow> string \<Rightarrow> ContractData obj
     \<Rightarrow> ((string \<times> string obj list) \<times> CompilationResult list) list
     \<Rightarrow> Writer \<Rightarrow> Writer \<times> error option" where
  "writeVersions c dir pathToData [] w = (w, None)"
| "writeVersions c dir pathToData (vr # vrs) w =
     (case writeUnits c dir pathToData (fst (fst vr)) (zip (snd (fst vr)) (snd vr)) w of
        (w', Some e) \<Rightarrow> (w', Some e)
      | (w', None) \<Rightarrow> writeVersions c dir pathToData vrs w')"

subsection \<open>A run\<close>

text \<open>
  \<open>_compileContractsAsync\<close>: the writes made and, when nothing threw, the outputs by version
  and unit. The directories that \<open>compileAsync\<close> creates beforehand are no artifacts and are
  not modelled. The registry that the run leaves behind is not returned: nothing after the
  run reads it.
\<close>

definition compileContracts ::
  "collaborators \<Rightarrow> Compiler \<Rightarrow> string list \<Rightarrow> bool \<Rightarrow> bool \<Rightarrow> driver
     \<Rightarrow> fileWrite list \<times> (error + StandardOutput list list)" where
  "compileContracts c this contractNames shouldPersist independently d =
     (case getSolcJSVersionList c (isOfflineMode (opts this)) of
        Inl e \<Rightarrow> ([], Inl e)
      | Inr releases \<Rightarrow>
          (case planContracts c this independently releases contractNames (emptyPlan, d) of
             Inl e \<Rightarrow> ([], Inl e)
           | Inr (plan, d1) \<Rightarrow>
               let importRemappings = getDependencyNameToPackagePath c (resolvedSoFar plan);
                   versions = map fst (compilationUnitsByVersion plan)
               in (case (if \<not> useDockerisedSolc (opts this) \<and> \<not> isOfflineMode (opts this)
                             \<and> versions \<noteq> []
                         then preFetchCSolcJSBinaries c versions else None) of
                     Some e \<Rightarrow> ([], Inl e)
                   | None \<Rightarrow>
                       (case compileVersions c importRemappings (compilationUnitsByVersion plan) d1 of
                          Inl e \<Rightarrow> ([], Inl e)
                        | Inr (compilationResults, d2) \<Rightarrow>
                            if shouldPersist then
                              (case writeVersions c (artifactsDir (opts this))
                                      (contractPathToData plan)
                                      (zip (compilationUnitsByVersion plan) compilationResults)
                                      emptyWriter of
                                 (w, Some e) \<Rightarrow> (written w, Inl e)
                               | (w, None) \<Rightarrow>
                                   (written w, Inr (map (map output) compilationResults)))
                            else ([], Inr (map (map output) compilationResults))))))"

definition compileAsync_run ::
  "collaborators \<Rightarrow> Compiler \<Rightarrow> driver \<Rightarrow> fileWrite list \<times> (error + StandardOutput list list)" where
  "compileAsync_run c this d =
     compileContracts c this (getContractNamesToCompile c this) True
       (shouldCompileIndependently (opts this)) d"

text \<open>
  A registry in which every wrapper was constructed for the version it is registered under,
  as \<open>_getSolcWrapperForVersion\<close> leaves it.
\<close>

definition registryOk :: "driver \<Rightarrow> bool" where
  "registryOk d = list_all (\<lambda>e. wrapperVersion (snd e) = fst e) (solcWrappersByVersion d)"

subsection \<open>What a plan is to hold\<close>

text \<open>
  The requested contracts that the cache gate does not skip, in the order of the request,
  each as what was resolved for it. For each requested name the gate is consulted on the
  record of that name, with the registry as the consultation before left it; planning is
  not involved.
\<close>

fun notSkipped :: "collaborators \<Rightarrow> Compiler \<Rightarrow> string list \<Rightarrow> driver \<Rightarrow> Walk list" where
  "notSkipped c this [] d = []"
| "notSkipped c this (n # ns) d =
     (case resolveTree c n of
        Inl e \<Rightarrow> []
      | Inr walk \<Rightarrow>
          (case shouldCompile c
                  \<lparr>currentArtifactIfExists =
                     getContractArtifactIfExists c (artifactsDir (opts this)) n,
                   sourceTreeHashHex = ''0x'' @ sourceTreeHash walk,
                   contractName = basename n (SOLIDITY_FILE_EXTENSION c)\<rparr> d of
             Inl e \<Rightarrow> []
           | Inr (mustRebuild, d') \<Rightarrow>
               (if mustRebuild then [walk] else []) @ notSkipped c this ns d'))"

text \<open>The version \<open>v\<close> is the one chosen for the root of a walk.\<close>

definition versioned :: "collaborators \<Rightarrow> Compiler \<Rightarrow> string obj \<Rightarrow> string \<Rightarrow> Walk \<Rightarrow> bool" where
  "versioned c this releases v walk =
     (chooseSolcVersion c this releases (source (root walk)) = Inr v)"

text \<open>
  The unit that holds exactly the sources given: its keys are their absolute paths, each
  once, in the order in which the paths first occur, and a path has the text of the last
  source given with that path.
\<close>

definition unitHolding :: "ContractSource list \<Rightarrow> string obj" where
  "unitHolding srcs =
     map (\<lambda>p. (p, source (last (filter (\<lambda>s. absolutePath s = p) srcs))))
       (rev (remdups (rev (map absolutePath srcs))))"

text \<open>
  The units that a version is to have, given the walks of the unskipped contracts that got
  this version: a unit of its own for each when compiling independently; otherwise one unit
  holding the sources of all of them, and no unit when there is no such contract.
\<close>

definition expectedUnits :: "bool \<Rightarrow> Walk list \<Rightarrow> string obj list" where
  "expectedUnits independently walks =
     (if independently then map (\<lambda>w. unitHolding (resolvedContractSources w)) walks
      else if walks = [] then []
      else [unitHolding (concat (map resolvedContractSources walks))])"

text \<open>The units of a version in a plan: \<open>compilationUnitsByVersion[v] || []\<close>.\<close>

definition unitsAt :: "Plan \<Rightarrow> string \<Rightarrow> string obj list" where
  "unitsAt p v = (case map_of (compilationUnitsByVersion p) v of None \<Rightarrow> [] | Some us \<Rightarrow> us)"

text \<open>A plan that holds what it is to hold for the walks given.\<close>

definition planHolds ::
  "collaborators \<Rightarrow> Compiler \<Rightarrow> string obj \<Rightarrow> bool \<Rightarrow> Plan \<Rightarrow> Walk list \<Rightarrow> bool" where
  "planHolds c this releases independently p walks =
     (distinct (map fst (compilationUnitsByVersion p)) \<and>
      (\<forall>e \<in> set (compilationUnitsByVersion p). snd e \<noteq> []) \<and>
      (\<forall>v. unitsAt p v = expectedUnits independently (filter (versioned c this releases v) walks)) \<and>
      (\<forall>w \<in> set walks. \<exists>v. versioned c this releases v w) \<and>
      (independently \<longrightarrow> unitCount p = length walks))"

subsection \<open>What the writer is to do for one path\<close>

text \<open>
  The writer's loops visit jobs: a version, one of its units and the result of compiling
  that unit, in the order of the plan.
\<close>

type_synonym job = "string \<times> string obj \<times> CompilationResult"

definition jobsOfVersion :: "string \<Rightarrow> (string obj \<times> CompilationResult) list \<Rightarrow> job list" where
  "jobsOfVersion v urs = map (\<lambda>ur. (v, fst ur, snd ur)) urs"

definition jobsOf ::
  "((string \<times> string obj list) \<times> CompilationResult list) list \<Rightarrow> job list" where
  "jobsOf vrs =
     concat (map (\<lambda>vr. jobsOfVersion (fst (fst vr)) (zip (snd (fst vr)) (snd vr))) vrs)"

definition holds :: "string \<Rightarrow> job \<Rightarrow> bool" where
  "holds p j = (p \<in> set (map fst (fst (snd j))))"

definition sizeOf :: "job \<Rightarrow> nat" where
  "sizeOf j = length (fst (snd j))"

text \<open>
  The jobs that persist the path \<open>p\<close>, given the unit size recorded for it so far: a job
  whose unit holds \<open>p\<close> persists it when nothing is recorded or its unit is strictly smaller
  than what is recorded.
\<close>

fun persisting :: "string \<Rightarrow> nat option \<Rightarrow> job list \<Rightarrow> job list" where
  "persisting p best [] = []"
| "persisting p best (j # js) =
     (if holds p j \<and> (case best of None \<Rightarrow> True | Some s \<Rightarrow> sizeOf j < s)
      then j # persisting p (Some (sizeOf j)) js
      else persisting p best js)"

definition bestAfter :: "string \<Rightarrow> nat option \<Rightarrow> job list \<Rightarrow> nat option" where
  "bestAfter p best js =
     (case persisting p best js of [] \<Rightarrow> best | x # xs \<Rightarrow> Some (sizeOf (last (x # xs))))"

definition callOf :: "string \<Rightarrow> string \<Rightarrow> job \<Rightarrow> PersistCall" where
  "callOf p cname j =
     \<lparr>forPath = p, fromUnitSize = sizeOf j, fileName = cname, withVersion = fst j,
      withResult = snd (snd j)\<rparr>"

definition callsFor :: "string \<Rightarrow> Writer \<Rightarrow> PersistCall list" where
  "callsFor p w = filter (\<lambda>k. forPath k = p) (persistCalls w)"

text \<open>The files that one call of \<open>_persistCompiledContractAsync\<close> writes.\<close>

definition writesOf :: "collaborators \<Rightarrow> string \<Rightarrow> PersistCall \<Rightarrow> fileWrite list" where
  "writesOf c dir k =
     fst (persistCompiledContract c dir (fileName k) (withVersion k)
            (input (withResult k)) (output (withResult k)))"

text \<open>Only paths of the planner's map are persisted or cached, and every write is a call's.\<close>

definition writerOk :: "collaborators \<Rightarrow> string \<Rightarrow> ContractData obj \<Rightarrow> Writer \<Rightarrow> bool" where
  "writerOk c dir ptd w =
     ((\<forall>k \<in> set (persistCalls w). map_of ptd (forPath k) \<noteq> None) \<and>
      (\<forall>e \<in> set (artifactCache w). map_of ptd (fst e) \<noteq> None) \<and>
      written w = concat (map (writesOf c dir) (persistCalls w)))"

section \<open>The \<open>JSONCompiler\<close> class\<close>

text \<open>
  The JSON driver is constructed like the other one (the same options, the same pin) and
  has a registry of its own. Its state during \<open>_compileContractsAsync\<close>: the map
  \<open>contractPathToData\<close>, the registry, the writes made, and the calls of the wrappers'
  \<open>compileAsync\<close> made so far, each with the wrapper and the contents it was given.
\<close>

record JSONRun =
  pathToData_json :: "ContractData obj"
  wrappers_json :: driver
  compileCalls :: "(SolcWrapper \<times> string obj) list"
  written_json :: "fileWrite list"

definition newJSONRun :: "driver \<Rightarrow> JSONRun" where
  "newJSONRun d =
     \<lparr>pathToData_json = [], wrappers_json = d, compileCalls = [], written_json = []\<rparr>"

text \<open>\<open>Array.prototype.join\<close> with a blank.\<close>

fun joinBlank :: "string list \<Rightarrow> string" where
  "joinBlank [] = []"
| "joinBlank [x] = x"
| "joinBlank (x # y # ys) = x @ '' '' @ joinBlank (y # ys)"

definition versionRangeOf :: "collaborators \<Rightarrow> string obj \<Rightarrow> string" where
  "versionRangeOf c contents = joinBlank (map (\<lambda>e. parseSolidityVersionRange c (snd e)) contents)"

definition chooseSolcVersion_json ::
  "collaborators \<Rightarrow> Compiler \<Rightarrow> string obj \<Rightarrow> string obj \<Rightarrow> error + string" where
  "chooseSolcVersion_json c this releases contents =
     (if truthy (solcVersionIfExists this) then Inr (the (solcVersionIfExists this))
      else
        let versionRange = versionRangeOf c contents;
            solidityVersion = maxSatisfying c (map fst releases) versionRange
        in if truthy solidityVersion then
             (case map_of releases (the solidityVersion) of
                None \<Rightarrow> Inl TypeError
              | Some full \<Rightarrow> Inr (normalizeSolcVersion full))
           else Inl (UnsatisfiableVersionError versionRange))"

text \<open>
  \<open>JSONCompiler._persistCompiledContractAsync\<close>: one artifact, without \<open>sources\<close>, for each
  key of \<open>compilerOutput.contracts\<close>.
\<close>

definition persistCompiledContract_json ::
  "collaborators \<Rightarrow> string \<Rightarrow> string \<Rightarrow> string \<Rightarrow> StandardInput \<Rightarrow> StandardOutput
     \<Rightarrow> fileWrite list" where
  "persistCompiledContract_json c dir contractFileName v compilerInput out =
     map (\<lambda>e. let cname = basename (fst e) (SOLIDITY_FILE_EXTENSION c) in
               (artifactPath dir contractFileName cname,
                \<lparr>schemaVersion = LATEST_ARTIFACT_VERSION c,
                 contractName_art = cname,
                 compilerOutput = map_of (snd e) cname,
                 sources_art = None,
                 compiler = \<lparr>name = ''solc'', version = v, settings = settings_in compilerInput\<rparr>,
                 sourceTreeHashHex_art = None\<rparr>))
         (contracts out)"

text \<open>One iteration of the loop over the requested bundles.\<close>

definition compileBundle ::
  "collaborators \<Rightarrow> Compiler \<Rightarrow> bool \<Rightarrow> string obj \<Rightarrow> string \<Rightarrow> JSONRun
     \<Rightarrow> JSONRun \<times> error option" where
  "compileBundle c this shouldPersist releases contractFileName st =
     (case resolveJSON c contractFileName of
        Inl e \<Rightarrow> (st, Some e)
      | Inr contractJSONSource \<Rightarrow>
          (case bundleContents c (source contractJSONSource) of
             Inl e \<Rightarrow> (st, Some e)
           | Inr contractContentsByPath \<Rightarrow>
               let contractData =
                     \<lparr>currentArtifactIfExists =
                        getContractArtifactIfExists c (artifactsDir (opts this)) contractFileName,
                      sourceTreeHashHex = ''0x'',
                      contractName = basename contractFileName (SOLIDITY_FILE_EXTENSION c)\<rparr>;
                   st1 = st\<lparr>pathToData_json :=
                              AList.update (path contractJSONSource) contractData
                                (pathToData_json st)\<rparr>
               in (case chooseSolcVersion_json c this releases contractContentsByPath of
                     Inl e \<Rightarrow> (st1, Some e)
                   | Inr v \<Rightarrow>
                       (case getSolcWrapperForVersion v (wrappers_json st1) of
                          Inl e \<Rightarrow> (st1, Some e)
                        | Inr (solc, d') \<Rightarrow>
                            let st2 = st1\<lparr>wrappers_json := d',
                                          compileCalls :=
                                            compileCalls st1 @ [(solc, contractContentsByPath)]\<rparr>
                            in (case compileAsync c solc contractContentsByPath [] of
                                  Inl e \<Rightarrow> (st2, Some e)
                                | Inr compilationResult \<Rightarrow>
                                    if shouldPersist then
                                      (st2\<lparr>written_json :=
                                             written_json st2 @
                                               persistCompiledContract_json c
                                                 (artifactsDir (opts this)) contractFileName v
                                                 (input compilationResult)
                                                 (output compilationResult)\<rparr>,
                                       None)
                                    else (st2, None))))))"

fun compileBundles ::
  "collaborators \<Rightarrow> Compiler \<Rightarrow> bool \<Rightarrow> string obj \<Rightarrow> string list \<Rightarrow> JSONRun
     \<Rightarrow> JSONRun \<times> error option" where
  "compileBundles c this shouldPersist releases [] st = (st, None)"
| "compileBundles c this shouldPersist releases (n # ns) st =
     (case compileBundle c this shouldPersist releases n st of
        (st', Some e) \<Rightarrow> (st', Some e)
      | (st', None) \<Rightarrow> compileBundles c this shouldPersist releases ns st')"

text \<open>\<open>JSONCompiler._compileContractsAsync\<close>: after the loop, \<open>return []\<close>.\<close>

definition compileContracts_json ::
  "collaborators \<Rightarrow> Compiler \<Rightarrow> string list \<Rightarrow> bool \<Rightarrow> driver
     \<Rightarrow> JSONRun \<times> (error + StandardOutput list list)" where
  "compileContracts_json c this contractFileNames shouldPersist d =
     (case getSolcJSVersionList c (isOfflineMode (opts this)) of
        Inl e \<Rightarrow> (newJSONRun d, Inl e)
      | Inr releases \<Rightarrow>
          (case compileBundles c this shouldPersist releases contractFileNames (newJSONRun d) of
             (st, Some e) \<Rightarrow> (st, Inl e)
           | (st, None) \<Rightarrow> (st, Inr [])))"

text \<open>\<open>o[0]\<close>, which is \<open>undefined\<close> for an empty array.\<close>

definition firstOf :: "'a list \<Rightarrow> 'a option" where
  "firstOf xs = (case xs of [] \<Rightarrow> None | x # _ \<Rightarrow> Some x)"

text \<open>
  \<open>JSONCompiler.getCompilerOutputsAsync\<close>, given the file names that
  \<open>getContractFileNamesToCompile\<close> returns.
\<close>

definition getCompilerOutputs_json ::
  "collaborators \<Rightarrow> Compiler \<Rightarrow> string list \<Rightarrow> driver \<Rightarrow> error + StandardOutput option list" where
  "getCompilerOutputs_json c this contractFileNames d =
     (case snd (compileContracts_json c this contractFileNames False d) of
        Inl e \<Rightarrow> Inl e
      | Inr promisedOutputs \<Rightarrow> Inr (map firstOf promisedOutputs))"

text \<open>\<open>JSONCompiler.compileAsync\<close>, likewise.\<close>

definition compileAsync_json ::
  "collaborators \<Rightarrow> Compiler \<Rightarrow> string list \<Rightarrow> driver
     \<Rightarrow> JSONRun \<times> (error + StandardOutput list list)" where
  "compileAsync_json c this contractFileNames d =
     compileContracts_json c this contractFileNames True d"

text \<open>The contents of the bundle that a requested file name stands for, when it has any.\<close>

definition bundleOf :: "collaborators \<Rightarrow> string \<Rightarrow> string obj" where
  "bundleOf c contractFileName =
     (case resolveJSON c contractFileName of
        Inl e \<Rightarrow> []
      | Inr contractJSONSource \<Rightarrow>
          (case bundleContents c (source contractJSONSource) of
             Inl e \<Rightarrow> []
           | Inr contractContentsByPath \<Rightarrow> contractContentsByPath))"

text \<open>
  What persisting is to write for one bundle: the files that
  \<open>JSONCompiler._persistCompiledContractAsync\<close> writes for the result that the wrapper
  gives on the contents of the bundle, under the version chosen for these contents.
\<close>

definition bundleWrites ::
  "collaborators \<Rightarrow> Compiler \<Rightarrow> string obj \<Rightarrow> string \<Rightarrow> SolcWrapper \<Rightarrow> fileWrite list" where
  "bundleWrites c this releases contractFileName solc =
     (case chooseSolcVersion_json c this releases (bundleOf c contractFileName) of
        Inl e \<Rightarrow> []
      | Inr v \<Rightarrow>
          (case compileAsync c solc (bundleOf c contractFileName) [] of
             Inl e \<Rightarrow> []
           | Inr compilationResult \<Rightarrow>
               persistCompiledContract_json c (artifactsDir (opts this)) contractFileName v
                 (input compilationResult) (output compilationResult)))"

section \<open>Concrete projects\<close>

text \<open>
  Small projects on which the model is run. A file \<open>/p/N.sol\<close> has the logical path
  \<open>N.sol\<close>; its text is its pragma. The release index has one entry, and the stand-in for
  \<open>semver.maxSatisfying\<close> knows the one range \<open>^0.6.0\<close>, which that entry satisfies.
\<close>

definition sol :: "string \<Rightarrow> string \<Rightarrow> ContractSource" where
  "sol n rng =
     \<lparr>source = ''pragma solidity '' @ rng @ '';'', path = n @ ''.sol'',
      absolutePath = ''/p/'' @ n @ ''.sol''\<rparr>"

definition releaseIndex :: "string obj" where
  "releaseIndex = [(''0.6.12'', ''v0.6.12+commit.27d51765'')]"

definition rangeOfPragma :: "string \<Rightarrow> string" where
  "rangeOfPragma s = take (length s - 17) (drop 16 s)"

definition maxSatisfying06 :: "string list \<Rightarrow> string \<Rightarrow> string option" where
  "maxSatisfying06 vs r = (if r = ''^0.6.0'' \<and> ''0.6.12'' \<in> set vs then Some ''0.6.12'' else None)"

text \<open>
  A back-end that answers as \<open>solc\<close> does on sources that each define the contract named
  after the file: every file of the unit is a key of \<open>sources\<close> and of \<open>contracts\<close>.
\<close>

definition echoBackend :: "SolcWrapper \<Rightarrow> string obj \<Rightarrow> string obj \<Rightarrow> error + CompilationResult" where
  "echoBackend solc u importRemappings =
     Inr \<lparr>input = \<lparr>settings_in = ''{}''\<rparr>,
          output =
            \<lparr>sources = map (\<lambda>e. (fst e, ''{}'')) u,
             contracts = map (\<lambda>e. (fst e, [(basename (fst e) ''.sol'', ''bin'')])) u\<rparr>\<rparr>"

text \<open>The same back-end on a project whose file \<open>/p/A.sol\<close> defines no contract.\<close>

definition backendWithoutA :: "SolcWrapper \<Rightarrow> string obj \<Rightarrow> string obj \<Rightarrow> error + CompilationResult" where
  "backendWithoutA solc u importRemappings =
     Inr \<lparr>input = \<lparr>settings_in = ''{}''\<rparr>,
          output =
            \<lparr>sources = map (\<lambda>e. (fst e, ''{}'')) u,
             contracts =
               map (\<lambda>e. (fst e, [(basename (fst e) ''.sol'', ''bin'')]))
                 (filter (\<lambda>e. fst e \<noteq> ''/p/A.sol'') u)\<rparr>\<rparr>"

text \<open>
  A project is given by what the resolver finds for a requested name and by the artifacts
  on disk; the remaining collaborators are the same for all.
\<close>

definition project ::
  "(string \<Rightarrow> error + Walk) \<Rightarrow> (string \<Rightarrow> ContractArtifact option)
     \<Rightarrow> (SolcWrapper \<Rightarrow> string obj \<Rightarrow> string obj \<Rightarrow> error + CompilationResult)
     \<Rightarrow> collaborators" where
  "project resolve artifacts backend =
     \<lparr>resolveTree = resolve,
      getAll = [],
      resolveJSON = (\<lambda>n. Inl (NameResolutionError n)),
      bundleContents = (\<lambda>s. Inl (SyntaxError s)),
      getContractArtifactIfExists = (\<lambda>dir n. artifacts n),
      getSolcJSVersionList = (\<lambda>offline. Inr releaseIndex),
      getSolcJSVersionFromPath = (\<lambda>p. p),
      maxSatisfying = maxSatisfying06,
      parseSolidityVersionRange = rangeOfPragma,
      getDependencyNameToPackagePath = (\<lambda>srcs. []),
      preFetchCSolcJSBinaries = (\<lambda>vs. None),
      areCompilerSettingsDifferent = (\<lambda>solc s. s \<noteq> ''{}''),
      compileAsync = backend,
      LATEST_ARTIFACT_VERSION = ''2.0.0'',
      SOLIDITY_FILE_EXTENSION = ''.sol''\<rparr>"

definition walkOf :: "string \<Rightarrow> string list \<Rightarrow> string \<Rightarrow> Walk" where
  "walkOf n imports rng =
     \<lparr>root = sol n rng,
      resolvedContractSources = sol n rng # map (\<lambda>i. sol i rng) imports,
      sourceTreeHash = ''00''\<rparr>"

definition options :: "bool \<Rightarrow> string list \<Rightarrow> string option \<Rightarrow> CompilerOptions" where
  "options independently names pin =
     \<lparr>artifactsDir = ''art'', contractsOpt = Some names, solcVersionOpt = pin,
      useDockerisedSolc = False, isOfflineMode = False,
      shouldCompileIndependently = independently\<rparr>"

text \<open>\<open>A.sol\<close> and \<open>B.sol\<close> both import \<open>L.sol\<close>; \<open>B.sol\<close> also imports \<open>M.sol\<close> in the second project.\<close>

definition resolveABL :: "string \<Rightarrow> error + Walk" where
  "resolveABL n =
     (if n = ''A'' then Inr (walkOf ''A'' [''L''] ''^0.6.0'')
      else if n = ''B'' then Inr (walkOf ''B'' [''L''] ''^0.6.0'')
      else Inl (NameResolutionError n))"

definition resolveABLM :: "string \<Rightarrow> error + Walk" where
  "resolveABLM n =
     (if n = ''A'' then Inr (walkOf ''A'' [''L''] ''^0.6.0'')
      else if n = ''B'' then Inr (walkOf ''B'' [''L'', ''M''] ''^0.6.0'')
      else Inl (NameResolutionError n))"

text \<open>One file \<open>A.sol\<close> without imports, with the pragma given.\<close>

definition resolveA :: "string \<Rightarrow> string \<Rightarrow> error + Walk" where
  "resolveA rng n =
     (if n = ''A'' then Inr (walkOf ''A'' [] rng) else Inl (NameResolutionError n))"

definition noArtifacts :: "string \<Rightarrow> ContractArtifact option" where
  "noArtifacts n = None"

text \<open>An artifact found on disk for \<open>A\<close>, and the planner's record of \<open>A\<close> with it.\<close>

definition artifactOf :: "string \<Rightarrow> string \<Rightarrow> string \<Rightarrow> ContractArtifact" where
  "artifactOf schema v hash =
     \<lparr>schemaVersion = schema, contractName_art = ''A'', compilerOutput = Some ''bin'',
      sources_art = Some [(''/p/A.sol'', ''{}'')],
      compiler = \<lparr>name = ''solc'', version = v, settings = ''{}''\<rparr>,
      sourceTreeHashHex_art = Some hash\<rparr>"

definition dataOf :: "ContractArtifact option \<Rightarrow> ContractData" where
  "dataOf a = \<lparr>currentArtifactIfExists = a, sourceTreeHashHex = ''0x00'', contractName = ''A''\<rparr>"

text \<open>Two wrappers and the registries that hold them.\<close>

definition wrapper06 :: SolcWrapper where
  "wrapper06 =
     \<lparr>wrapperFamily = V06, wrapperVersion = ''0.6.12+commit.27d51765'', wrapperAddr = 0\<rparr>"

definition wrapper05 :: SolcWrapper where
  "wrapper05 =
     \<lparr>wrapperFamily = V05, wrapperVersion = ''0.5.16+commit.9c3226ce'', wrapperAddr = 1\<rparr>"

definition driver06 :: driver where
  "driver06 =
     \<lparr>solcWrappersByVersion = [(''0.6.12+commit.27d51765'', wrapper06)], nextAddr = 1\<rparr>"

definition driver0605 :: driver where
  "driver0605 =
     \<lparr>solcWrappersByVersion =
        [(''0.6.12+commit.27d51765'', wrapper06), (''0.5.16+commit.9c3226ce'', wrapper05)],
      nextAddr = 2\<rparr>"

text \<open>
  A project of standard-JSON bundles: the one bundle \<open>A\<close>, holding the one source \<open>A.sol\<close>,
  with the artifacts given on disk.
\<close>

definition bundleProject :: "(string \<Rightarrow> ContractArtifact option) \<Rightarrow> collaborators" where
  "bundleProject artifacts =
     (project (\<lambda>n. Inl (NameResolutionError n)) artifacts echoBackend)
       \<lparr>resolveJSON :=
          (\<lambda>n. if n = ''A''
                then Inr \<lparr>source = ''{}'', path = ''A.sol'', absolutePath = ''/p/A.json''\<rparr>
                else Inl (NameResolutionError n)),
        bundleContents := (\<lambda>s. Inr [(''A.sol'', ''pragma solidity ^0.6.0;'')])\<rparr>"

definition upToDate :: "string \<Rightarrow> ContractArtifact option" where
  "upToDate n =
     (if n = ''A'' then Some (artifactOf ''2.0.0'' ''0.6.12+commit.27d51765'' ''0x'') else None)"

text \<open>The project of the one file \<open>A.sol\<close>, a pin with a leading \<open>v\<close>, and the plan for \<open>A\<close> under it.\<close>

definition projectA :: collaborators where
  "projectA = project (resolveA ''^0.6.0'') noArtifacts echoBackend"

definition pinV :: string where
  "pinV = ''v0.6.12+commit.27d51765''"

definition planA :: "string \<Rightarrow> Plan" where
  "planA v =
     \<lparr>compilationUnitsByVersion = [(v, [[(''/p/A.sol'', ''pragma solidity ^0.6.0;'')]])],
      contractPathToData = [(''/p/A.sol'', dataOf None)],
      resolvedSoFar = [sol ''A'' ''^0.6.0'']\<rparr>"

text \<open>The same file with a pragma that no release satisfies.\<close>

definition projectA9 :: collaborators where
  "projectA9 = project (resolveA ''^9.9.9'') noArtifacts echoBackend"

text \<open>
  The stand-in for \<open>semver.maxSatisfying\<close> is the greatest version that satisfies the range
  under this reading of satisfaction (any order will do, there being one such version).
\<close>

definition satisfies06 :: "string \<Rightarrow> string \<Rightarrow> bool" where
  "satisfies06 v r = (v = ''0.6.12'' \<and> r = ''^0.6.0'')"

text \<open>
  The project in which \<open>A.sol\<close> and \<open>B.sol\<close> import \<open>L.sol\<close>, both requested; its planning in
  either mode; and the view of a plan that lists, for each version, the files of each unit.
\<close>

definition projectABL :: collaborators where
  "projectABL = project resolveABL noArtifacts echoBackend"

definition compilerABL :: "bool \<Rightarrow> Compiler" where
  "compilerABL independently = newCompiler projectABL None (options independently [''A'', ''B''] None)"

definition plannedABL :: "bool \<Rightarrow> error + (Plan \<times> driver)" where
  "plannedABL independently =
     planContracts projectABL (compilerABL independently) independently releaseIndex
       [''A'', ''B''] (emptyPlan, newDriver)"

definition unitsOf :: "Plan \<Rightarrow> (string \<times> string list list) list" where
  "unitsOf p = map (\<lambda>e. (fst e, map (map fst) (snd e))) (compilationUnitsByVersion p)"

text \<open>
  \<open>A.sol\<close> imports \<open>B.sol\<close>, and both are requested and compiled independently: the unit of
  \<open>A\<close> holds both files, the unit of \<open>B\<close> holds \<open>B.sol\<close> alone. What the writer is given for
  this project, and what it does with it.
\<close>

definition resolveAB :: "string \<Rightarrow> error + Walk" where
  "resolveAB n =
     (if n = ''A'' then Inr (walkOf ''A'' [''B''] ''^0.6.0'')
      else if n = ''B'' then Inr (walkOf ''B'' [] ''^0.6.0'')
      else Inl (NameResolutionError n))"

definition projectAB :: collaborators where
  "projectAB = project resolveAB noArtifacts echoBackend"

definition compilerAB :: Compiler where
  "compilerAB = newCompiler projectAB None (options True [''A'', ''B''] None)"

definition unitOf :: "string list \<Rightarrow> string obj" where
  "unitOf ns = map (\<lambda>n. (''/p/'' @ n @ ''.sol'', ''pragma solidity ^0.6.0;'')) ns"

definition echoResult :: "string obj \<Rightarrow> CompilationResult" where
  "echoResult u =
     \<lparr>input = \<lparr>settings_in = ''{}''\<rparr>,
      output =
        \<lparr>sources = map (\<lambda>e. (fst e, ''{}'')) u,
         contracts = map (\<lambda>e. (fst e, [(basename (fst e) ''.sol'', ''bin'')])) u\<rparr>\<rparr>"

definition jobAB :: job where
  "jobAB = (''0.6.12+commit.27d51765'', unitOf [''A'', ''B''], echoResult (unitOf [''A'', ''B'']))"

definition jobB :: job where
  "jobB = (''0.6.12+commit.27d51765'', unitOf [''B''], echoResult (unitOf [''B'']))"

definition resultsAB :: "((string \<times> string obj list) \<times> CompilationResult list) list" where
  "resultsAB =
     [((''0.6.12+commit.27d51765'', [unitOf [''A'', ''B''], unitOf [''B'']]),
       [echoResult (unitOf [''A'', ''B'']), echoResult (unitOf [''B''])])]"

definition dataB :: ContractData where
  "dataB = \<lparr>currentArtifactIfExists = None, sourceTreeHashHex = ''0x00'', contractName = ''B''\<rparr>"

definition dataAB :: "ContractData obj" where
  "dataAB = [(''/p/A.sol'', dataOf None), (''/p/B.sol'', dataB)]"

definition writtenAB :: "Writer \<times> error option" where
  "writtenAB = writeVersions projectAB ''art'' dataAB resultsAB emptyWriter"

text \<open>
  \<open>A.sol\<close> imports \<open>L.sol\<close>, and \<open>B.sol\<close> imports \<open>L.sol\<close> and \<open>M.sol\<close>; \<open>A\<close> and \<open>B\<close> are requested
  and compiled independently. The view of a written file: its path, the contract it is for,
  and the files of the unit it was produced from.
\<close>

definition projectABLM :: collaborators where
  "projectABLM = project resolveABLM noArtifacts echoBackend"

definition compilerABLM :: Compiler where
  "compilerABLM = newCompiler projectABLM None (options True [''A'', ''B''] None)"

definition producedFrom :: "fileWrite \<Rightarrow> string \<times> string \<times> string list" where
  "producedFrom w =
     (fst w, contractName_art (snd w),
      (case sources_art (snd w) of None \<Rightarrow> [] | Some srcs \<Rightarrow> map fst srcs))"

text \<open>\<open>A.sol\<close>, which defines no contract, imports \<open>L.sol\<close>; and \<open>A.sol\<close> defining a contract \<open>Other\<close>.\<close>

definition projectNoA :: collaborators where
  "projectNoA = project resolveABL noArtifacts backendWithoutA"

definition backendOtherA :: "SolcWrapper \<Rightarrow> string obj \<Rightarrow> string obj \<Rightarrow> error + CompilationResult" where
  "backendOtherA solc u importRemappings =
     Inr \<lparr>input = \<lparr>settings_in = ''{}''\<rparr>,
          output =
            \<lparr>sources = map (\<lambda>e. (fst e, ''{}'')) u,
             contracts =
               map (\<lambda>e. (fst e,
                           [(if fst e = ''/p/A.sol'' then ''Other'' else basename (fst e) ''.sol'',
                             ''bin'')])) u\<rparr>\<rparr>"

definition projectOtherA :: collaborators where
  "projectOtherA = project resolveABL noArtifacts backendOtherA"

text \<open>
  The project of \<open>A.sol\<close> and \<open>B.sol\<close> importing \<open>L.sol\<close> once more, now with an artifact for
  \<open>A\<close> on disk that is current, so that the gate skips \<open>A\<close>.
\<close>

definition currentA :: "string \<Rightarrow> ContractArtifact option" where
  "currentA n =
     (if n = ''A'' then Some (artifactOf ''2.0.0'' ''0.6.12+commit.27d51765'' ''0x00'') else None)"

definition projectSkipA :: collaborators where
  "projectSkipA = project resolveABL currentA echoBackend"

definition compilerSkipA :: "bool \<Rightarrow> Compiler" where
  "compilerSkipA independently =
     newCompiler projectSkipA None (options independently [''A'', ''B''] None)"

definition plannedSkipA :: "bool \<Rightarrow> error + (Plan \<times> driver)" where
  "plannedSkipA independently =
     planContracts projectSkipA (compilerSkipA independently) independently releaseIndex
       [''A'', ''B''] (emptyPlan, newDriver)"

section \<open>Association lists as objects\<close>

lemma set_update_cases:
  "e \<in> set (AList.update k v al) \<Longrightarrow> e = (k, v) \<or> e \<in> set al"
  by (induction al) (auto split: if_splits)

lemma set_update_new: "(k, v) \<in> set (AList.update k v al)"
  by (induction al) auto

lemma set_update_other: "e \<in> set al \<Longrightarrow> fst e \<noteq> k \<Longrightarrow> e \<in> set (AList.update k v al)"
  by (induction al) auto

lemma map_of_distinct_mem:
  "distinct (map fst al) \<Longrightarrow> (k, v) \<in> set al \<Longrightarrow> map_of al k = Some v"
  by simp

lemma update_length_sum:
  assumes "us = (case map_of al k of None \<Rightarrow> [] | Some y \<Rightarrow> y)"
  shows "sum_list (map (\<lambda>e. length (snd e)) (AList.update k (us @ [x]) al))
       = Suc (sum_list (map (\<lambda>e. length (snd e)) al))"
  using assms by (induction al) auto

section \<open>Facts about the wrapper registry\<close>


lemma createSolcInstance_family:
  "createSolcInstance v a =
     (case familyOf v of
        None \<Rightarrow> Inl (UnsupportedVersionError v)
      | Some f \<Rightarrow> Inr \<lparr>wrapperFamily = f, wrapperVersion = v, wrapperAddr = a\<rparr>)"
  by (simp add: createSolcInstance_def familyOf_def familyPrefixes_def)

lemma getSolcWrapper_hit:
  "map_of (solcWrappersByVersion d) (normalizeSolcVersion v) = Some w \<Longrightarrow>
   getSolcWrapperForVersion v d = Inr (w, d)"
  by (simp add: getSolcWrapperForVersion_def)

lemma getSolcWrapper_registers:
  "getSolcWrapperForVersion v d = Inr (w, d') \<Longrightarrow>
   map_of (solcWrappersByVersion d') (normalizeSolcVersion v) = Some w"
  by (auto simp: getSolcWrapperForVersion_def Let_def update_conv' split: option.splits sum.splits)

lemma getSolcWrapper_keeps:
  "getSolcWrapperForVersion v d = Inr (w, d') \<Longrightarrow>
   map_of (solcWrappersByVersion d) k = Some x \<Longrightarrow>
   map_of (solcWrappersByVersion d') k = Some x"
  by (auto simp: getSolcWrapperForVersion_def Let_def update_conv' split: option.splits sum.splits)

lemma requestAll_keeps:
  "requestAll vs d = Inr d' \<Longrightarrow>
   map_of (solcWrappersByVersion d) k = Some x \<Longrightarrow>
   map_of (solcWrappersByVersion d') k = Some x"
proof (induction vs arbitrary: d)
  case Nil
  then show ?case by simp
next
  case (Cons v vs)
  from Cons.prems(1) obtain w d1 where
    g: "getSolcWrapperForVersion v d = Inr (w, d1)" and r: "requestAll vs d1 = Inr d'"
    by (auto split: sum.splits)
  show ?case by (rule Cons.IH[OF r getSolcWrapper_keeps[OF g Cons.prems(2)]])
qed

lemma createSolcInstance_version:
  "createSolcInstance v a = Inr w \<Longrightarrow> wrapperVersion w = v"
  by (auto simp: createSolcInstance_family split: option.splits)

lemma getSolcWrapper_ok:
  assumes "registryOk d" and "getSolcWrapperForVersion v d = Inr (w, d')"
  shows "registryOk d' \<and> wrapperVersion w = normalizeSolcVersion v"
proof (cases "map_of (solcWrappersByVersion d) (normalizeSolcVersion v)")
  case None
  with assms(2) obtain w' where
    c: "createSolcInstance (normalizeSolcVersion v) (nextAddr d) = Inr w'" and
    w: "w = w'" and
    d': "solcWrappersByVersion d' = AList.update (normalizeSolcVersion v) w' (solcWrappersByVersion d)"
    by (auto simp: getSolcWrapperForVersion_def Let_def split: sum.splits)
  from c have v: "wrapperVersion w' = normalizeSolcVersion v"
    by (rule createSolcInstance_version)
  have "\<forall>e \<in> set (solcWrappersByVersion d'). wrapperVersion (snd e) = fst e"
  proof
    fix e assume "e \<in> set (solcWrappersByVersion d')"
    then have "e = (normalizeSolcVersion v, w') \<or> e \<in> set (solcWrappersByVersion d)"
      unfolding d' by (rule set_update_cases)
    with v assms(1) show "wrapperVersion (snd e) = fst e"
      by (auto simp: registryOk_def list_all_iff)
  qed
  with v w show ?thesis by (simp add: registryOk_def list_all_iff)
next
  case (Some w')
  with assms(2) have "w = w'" "d' = d"
    by (auto simp: getSolcWrapperForVersion_def Let_def)
  moreover from Some have "(normalizeSolcVersion v, w') \<in> set (solcWrappersByVersion d)"
    by (rule map_of_SomeD)
  ultimately show ?thesis using assms(1)
    by (auto simp: registryOk_def list_all_iff)
qed

section \<open>One step of the planner\<close>

lemma planContracts_append:
  "planContracts c this ind rel (xs @ ys) s =
     (case planContracts c this ind rel xs s of
        Inl e \<Rightarrow> Inl e
      | Inr s' \<Rightarrow> planContracts c this ind rel ys s')"
  by (induction xs arbitrary: s) (auto split: sum.splits)

lemma planContract_cases:
  assumes "planContract c this ind rel n s = Inr (b, p', d')"
  obtains (skipped) "\<not> b" and "p' = fst s"
  | (placed) walk v where "b" and "resolveTree c n = Inr walk"
      and "chooseSolcVersion c this rel (source (root walk)) = Inr v"
      and "compilationUnitsByVersion p' =
             AList.update v
               (placeInUnits ind (resolvedContractSources walk)
                  (case map_of (compilationUnitsByVersion (fst s)) v of None \<Rightarrow> [] | Some us \<Rightarrow> us))
               (compilationUnitsByVersion (fst s))"
      and "resolvedSoFar p' = resolvedSoFar (fst s) @ resolvedContractSources walk"
  using assms
  by (auto simp: planContract_def Let_def split: sum.splits prod.splits if_splits)

lemma chooseSolcVersion_pin:
  "truthy (solcVersionIfExists this) \<Longrightarrow>
   chooseSolcVersion c this rel src = Inr (the (solcVersionIfExists this))"
  by (simp add: chooseSolcVersion_def)

lemma planContract_pin_keys:
  assumes "truthy (solcVersionIfExists this)"
    and "planContract c this ind rel n s = Inr (b, p', d')"
    and "set (map fst (compilationUnitsByVersion (fst s))) \<subseteq> {the (solcVersionIfExists this)}"
  shows "set (map fst (compilationUnitsByVersion p')) \<subseteq> {the (solcVersionIfExists this)}"
  using assms(2)
proof (cases rule: planContract_cases)
  case skipped
  with assms(3) show ?thesis by simp
next
  case (placed walk v)
  from placed(3) assms(1) have "v = the (solcVersionIfExists this)"
    by (simp add: chooseSolcVersion_pin)
  with placed(4) assms(3) show ?thesis
    by (auto simp: update_keys split: if_splits)
qed

lemma planContracts_pin_keys:
  assumes "truthy (solcVersionIfExists this)"
    and "planContracts c this ind rel ns s = Inr (p', d')"
    and "set (map fst (compilationUnitsByVersion (fst s))) \<subseteq> {the (solcVersionIfExists this)}"
  shows "set (map fst (compilationUnitsByVersion p')) \<subseteq> {the (solcVersionIfExists this)}"
  using assms(2,3)
proof (induction ns arbitrary: s)
  case Nil
  then show ?case by auto
next
  case (Cons n ns)
  from Cons.prems(1) obtain b p1 d1 where
    a: "planContract c this ind rel n s = Inr (b, p1, d1)" and
    r: "planContracts c this ind rel ns (p1, d1) = Inr (p', d')"
    by (auto split: sum.splits)
  from planContract_pin_keys[OF assms(1) a Cons.prems(2)] Cons.IH[OF r] show ?case by simp
qed

section \<open>Unfolding the concrete projects\<close>

lemmas scenario_defs =
  project_def dataOf_def artifactOf_def newDriver_def driver06_def wrapper06_def
  noArtifacts_def echoBackend_def

lemmas registry_defs =
  getSolcWrapperForVersion_def createSolcInstance_def startsWith_def normalizeSolcVersion_def
  familyOf_def familyPrefixes_def Let_def

lemmas json_defs =
  compileContracts_json_def compileBundle_def chooseSolcVersion_json_def versionRangeOf_def
  newJSONRun_def bundleProject_def newCompiler_def options_def truthy_def releaseIndex_def
  maxSatisfying06_def rangeOfPragma_def persistCompiledContract_json_def artifactPath_def
  basename_def upToDate_def

section \<open>The wrapper registry: families and identity\<close>

text \<open>
  Claim C8. \<open>_createSolcInstance\<close> selects the wrapper family by prefix match against
  \<open>0.1.\<close>, \<open>0.2.\<close>, \<open>0.3.\<close>, \<open>0.4.\<close>, \<open>0.5.\<close>, \<open>0.6\<close>, \<open>0.7\<close>, \<open>0.8\<close> and fails with
  \<open>UnsupportedVersionError\<close> when none matches; a fresh driver creates the wrapper on the
  first request, for the normalized version and registered under it; and once a request
  has returned a wrapper, every later request for a version with the same normalized
  string returns that very instance (same address) and leaves the driver unchanged,
  whatever was requested in between.
\<close>

theorem wrapper_registry:
  "createSolcInstance v a =
     (case familyOf v of
        None \<Rightarrow> Inl (UnsupportedVersionError v)
      | Some f \<Rightarrow> Inr \<lparr>wrapperFamily = f, wrapperVersion = v, wrapperAddr = a\<rparr>)
   \<and> getSolcWrapperForVersion v newDriver =
     (case familyOf (normalizeSolcVersion v) of
        None \<Rightarrow> Inl (UnsupportedVersionError (normalizeSolcVersion v))
      | Some f \<Rightarrow>
          Inr (\<lparr>wrapperFamily = f, wrapperVersion = normalizeSolcVersion v, wrapperAddr = 0\<rparr>,
               \<lparr>solcWrappersByVersion =
                  [(normalizeSolcVersion v,
                    \<lparr>wrapperFamily = f, wrapperVersion = normalizeSolcVersion v, wrapperAddr = 0\<rparr>)],
                nextAddr = 1\<rparr>))
   \<and> (getSolcWrapperForVersion v1 d = Inr (w, d1) \<and> requestAll vs d1 = Inr d2 \<and>
        normalizeSolcVersion v2 = normalizeSolcVersion v1
        \<longrightarrow> getSolcWrapperForVersion v2 d2 = Inr (w, d2))"
proof (intro conjI impI)
  show "createSolcInstance v a =
     (case familyOf v of
        None \<Rightarrow> Inl (UnsupportedVersionError v)
      | Some f \<Rightarrow> Inr \<lparr>wrapperFamily = f, wrapperVersion = v, wrapperAddr = a\<rparr>)"
    by (rule createSolcInstance_family)
next
  show "getSolcWrapperForVersion v newDriver =
     (case familyOf (normalizeSolcVersion v) of
        None \<Rightarrow> Inl (UnsupportedVersionError (normalizeSolcVersion v))
      | Some f \<Rightarrow>
          Inr (\<lparr>wrapperFamily = f, wrapperVersion = normalizeSolcVersion v, wrapperAddr = 0\<rparr>,
               \<lparr>solcWrappersByVersion =
                  [(normalizeSolcVersion v,
                    \<lparr>wrapperFamily = f, wrapperVersion = normalizeSolcVersion v, wrapperAddr = 0\<rparr>)],
                nextAddr = 1\<rparr>))"
    by (simp add: getSolcWrapperForVersion_def newDriver_def createSolcInstance_family Let_def
        split: option.splits)
next
  assume h: "getSolcWrapperForVersion v1 d = Inr (w, d1) \<and> requestAll vs d1 = Inr d2 \<and>
        normalizeSolcVersion v2 = normalizeSolcVersion v1"
  then have g: "getSolcWrapperForVersion v1 d = Inr (w, d1)"
    and r: "requestAll vs d1 = Inr d2"
    and n: "normalizeSolcVersion v2 = normalizeSolcVersion v1"
    by simp_all
  have "map_of (solcWrappersByVersion d1) (normalizeSolcVersion v1) = Some w"
    by (rule getSolcWrapper_registers[OF g])
  then have "map_of (solcWrappersByVersion d2) (normalizeSolcVersion v2) = Some w"
    unfolding n by (rule requestAll_keeps[OF r])
  then show "getSolcWrapperForVersion v2 d2 = Inr (w, d2)"
    by (rule getSolcWrapper_hit)
qed

lemma registry_first_request: "getSolcWrapperForVersion ''v0.6.12+commit.27d51765'' newDriver = Inr (wrapper06, driver06)"
  by (simp add: getSolcWrapperForVersion_def newDriver_def normalizeSolcVersion_def createSolcInstance_def startsWith_def wrapper06_def driver06_def Let_def)
lemma registry_second_request: "requestAll [''0.5.16+commit.9c3226ce''] driver06 = Inr driver0605"
  by (simp add: getSolcWrapperForVersion_def normalizeSolcVersion_def createSolcInstance_def startsWith_def wrapper06_def driver06_def wrapper05_def driver0605_def Let_def)

theorem wrapper_registry_witness:
  "getSolcWrapperForVersion ''v0.6.12+commit.27d51765'' newDriver = Inr (wrapper06, driver06)
   \<and> requestAll [''0.5.16+commit.9c3226ce''] driver06 = Inr driver0605
   \<and> normalizeSolcVersion ''0.6.12+commit.27d51765'' = normalizeSolcVersion ''v0.6.12+commit.27d51765''
   \<and> getSolcWrapperForVersion ''0.6.12+commit.27d51765'' driver0605 = Inr (wrapper06, driver0605)
   \<and> createSolcInstance ''0.9.0'' 7 = Inl (UnsupportedVersionError ''0.9.0'')"
  using wrapper_registry [where v = "''0.9.0''" and a = 7 and ?v1.0 = "''v0.6.12+commit.27d51765''"
      and d = newDriver and w = wrapper06 and ?d1.0 = driver06 and vs = "[''0.5.16+commit.9c3226ce'']"
      and ?d2.0 = driver0605 and ?v2.0 = "''0.6.12+commit.27d51765''"] registry_first_request registry_second_request
  by (simp add: normalizeSolcVersion_def familyOf_def familyPrefixes_def startsWith_def)

section \<open>The cache gate\<close>

lemma getSolcWrapper_total:
  assumes "familyOf (normalizeSolcVersion v) = Some f"
  shows "\<exists>solc d'. getSolcWrapperForVersion v d = Inr (solc, d')"
  using assms
  by (simp add: getSolcWrapperForVersion_def createSolcInstance_family Let_def
      split: option.splits)

lemma getSolcWrapper_unsupported:
  assumes "familyOf (normalizeSolcVersion v) = None"
    and "map_of (solcWrappersByVersion d) (normalizeSolcVersion v) = None"
  shows "getSolcWrapperForVersion v d = Inl (UnsupportedVersionError (normalizeSolcVersion v))"
  using assms
  by (simp add: getSolcWrapperForVersion_def createSolcInstance_family Let_def)

text \<open>
  Claim C3, as amended. The gate answers at once that the contract must be rebuilt when
  there is no artifact. With an artifact whose recorded compiler version belongs to a
  wrapper family, it answers "must rebuild" exactly when the schema version differs from
  \<open>LATEST_ARTIFACT_VERSION\<close>, or the wrapper of that version reports different settings,
  or the recorded source-tree hash differs from the new one, and "skip" otherwise. With
  an artifact whose recorded compiler version belongs to no family (and has no wrapper
  registered), it gives no answer: it fails with \<open>UnsupportedVersionError\<close>.
\<close>

theorem cache_gate:
  "(currentArtifactIfExists contractData = None
      \<longrightarrow> shouldCompile c contractData d = Inr (True, d))
   \<and> (currentArtifactIfExists contractData = Some a \<and>
        familyOf (normalizeSolcVersion (version (compiler a))) = Some f
      \<longrightarrow> (\<exists>solc d'.
            getSolcWrapperForVersion (version (compiler a)) d = Inr (solc, d') \<and>
            shouldCompile c contractData d =
              Inr (schemaVersion a \<noteq> LATEST_ARTIFACT_VERSION c \<or>
                   areCompilerSettingsDifferent c solc (settings (compiler a)) \<or>
                   sourceTreeHashHex_art a \<noteq> Some (sourceTreeHashHex contractData), d')))
   \<and> (currentArtifactIfExists contractData = Some a \<and>
        familyOf (normalizeSolcVersion (version (compiler a))) = None \<and>
        map_of (solcWrappersByVersion d) (normalizeSolcVersion (version (compiler a))) = None
      \<longrightarrow> shouldCompile c contractData d =
            Inl (UnsupportedVersionError (normalizeSolcVersion (version (compiler a)))))"
proof (intro conjI impI)
  assume "currentArtifactIfExists contractData = None"
  then show "shouldCompile c contractData d = Inr (True, d)"
    by (simp add: shouldCompile_def)
next
  assume h: "currentArtifactIfExists contractData = Some a \<and>
        familyOf (normalizeSolcVersion (version (compiler a))) = Some f"
  then obtain solc d' where
    g: "getSolcWrapperForVersion (version (compiler a)) d = Inr (solc, d')"
    using getSolcWrapper_total by blast
  with h have "shouldCompile c contractData d =
              Inr (schemaVersion a \<noteq> LATEST_ARTIFACT_VERSION c \<or>
                   areCompilerSettingsDifferent c solc (settings (compiler a)) \<or>
                   sourceTreeHashHex_art a \<noteq> Some (sourceTreeHashHex contractData), d')"
    by (simp add: shouldCompile_def)
  with g show "\<exists>solc d'.
            getSolcWrapperForVersion (version (compiler a)) d = Inr (solc, d') \<and>
            shouldCompile c contractData d =
              Inr (schemaVersion a \<noteq> LATEST_ARTIFACT_VERSION c \<or>
                   areCompilerSettingsDifferent c solc (settings (compiler a)) \<or>
                   sourceTreeHashHex_art a \<noteq> Some (sourceTreeHashHex contractData), d')"
    by blast
next
  assume h: "currentArtifactIfExists contractData = Some a \<and>
        familyOf (normalizeSolcVersion (version (compiler a))) = None \<and>
        map_of (solcWrappersByVersion d) (normalizeSolcVersion (version (compiler a))) = None"
  then have "getSolcWrapperForVersion (version (compiler a)) d =
      Inl (UnsupportedVersionError (normalizeSolcVersion (version (compiler a))))"
    by (simp add: getSolcWrapper_unsupported)
  with h show "shouldCompile c contractData d =
            Inl (UnsupportedVersionError (normalizeSolcVersion (version (compiler a))))"
    by (simp add: shouldCompile_def)
qed

text \<open>The gate on four records of \<open>A\<close>: no artifact, a current one, a stale hash, an unknown family.\<close>

theorem cache_gate_witness:
  "shouldCompile (project (resolveA ''^0.6.0'') noArtifacts echoBackend) (dataOf None) newDriver
     = Inr (True, newDriver)
   \<and> shouldCompile (project (resolveA ''^0.6.0'') noArtifacts echoBackend)
       (dataOf (Some (artifactOf ''2.0.0'' ''0.6.12+commit.27d51765'' ''0x00''))) newDriver
     = Inr (False, driver06)
   \<and> shouldCompile (project (resolveA ''^0.6.0'') noArtifacts echoBackend)
       (dataOf (Some (artifactOf ''2.0.0'' ''0.6.12+commit.27d51765'' ''0x01''))) newDriver
     = Inr (True, driver06)
   \<and> shouldCompile (project (resolveA ''^0.6.0'') noArtifacts echoBackend)
       (dataOf (Some (artifactOf ''2.0.0'' ''0.9.0+commit.00000000'' ''0x00''))) newDriver
     = Inl (UnsupportedVersionError ''0.9.0+commit.00000000'')"
  using
    cache_gate [where contractData = "dataOf None" and d = newDriver
      and c = "project (resolveA ''^0.6.0'') noArtifacts echoBackend"]
    cache_gate [where contractData = "dataOf (Some (artifactOf ''2.0.0'' ''0.6.12+commit.27d51765'' ''0x00''))"
      and a = "artifactOf ''2.0.0'' ''0.6.12+commit.27d51765'' ''0x00''" and f = V06 and d = newDriver
      and c = "project (resolveA ''^0.6.0'') noArtifacts echoBackend"]
    cache_gate [where contractData = "dataOf (Some (artifactOf ''2.0.0'' ''0.6.12+commit.27d51765'' ''0x01''))"
      and a = "artifactOf ''2.0.0'' ''0.6.12+commit.27d51765'' ''0x01''" and f = V06 and d = newDriver
      and c = "project (resolveA ''^0.6.0'') noArtifacts echoBackend"]
    cache_gate [where contractData = "dataOf (Some (artifactOf ''2.0.0'' ''0.9.0+commit.00000000'' ''0x00''))"
      and a = "artifactOf ''2.0.0'' ''0.9.0+commit.00000000'' ''0x00''" and d = newDriver
      and c = "project (resolveA ''^0.6.0'') noArtifacts echoBackend"]
  by (simp add: scenario_defs registry_defs)

text \<open>
  Counterexample to claim C3 as stated: an artifact that records a compiler version of no
  wrapper family. Its schema version differs from the current one, so the claim has the
  gate answer "must rebuild"; the gate throws instead.
\<close>

theorem cache_gate_throws:
  "shouldCompile (project (resolveA ''^0.6.0'') noArtifacts echoBackend)
       (dataOf (Some (artifactOf ''1.0.0'' ''0.9.0+commit.00000000'' ''0x00''))) newDriver
     = Inl (UnsupportedVersionError ''0.9.0+commit.00000000'')
   \<and> schemaVersion (artifactOf ''1.0.0'' ''0.9.0+commit.00000000'' ''0x00'')
       \<noteq> LATEST_ARTIFACT_VERSION (project (resolveA ''^0.6.0'') noArtifacts echoBackend)"
  by (simp add: scenario_defs registry_defs shouldCompile_def)

section \<open>The JSON driver: what it returns\<close>

lemma compileContracts_json_result:
  "snd (compileContracts_json c this names persist d) = Inr outs \<Longrightarrow> outs = []"
  by (auto simp: compileContracts_json_def split: sum.splits prod.splits option.splits)

text \<open>
  Claim C9, as amended. For every input and configuration,
  \<open>JSONCompiler.getCompilerOutputsAsync\<close> fails with the error of the internal compile
  routine when that throws, and returns the empty array otherwise: the internal routine
  never returns anything but the empty list, with or without persisting.
\<close>

theorem json_outputs_empty:
  "getCompilerOutputs_json c this names d =
     (case snd (compileContracts_json c this names False d) of
        Inl e \<Rightarrow> Inl e
      | Inr outs \<Rightarrow> Inr [])
   \<and> (case snd (compileContracts_json c this names persist d) of
        Inl e \<Rightarrow> True
      | Inr outs \<Rightarrow> outs = [])"
  by (auto simp: getCompilerOutputs_json_def split: sum.splits
      dest: compileContracts_json_result)

text \<open>On the bundle \<open>A\<close>, which compiles, both return the empty list.\<close>

theorem json_outputs_empty_witness:
  "getCompilerOutputs_json (bundleProject noArtifacts)
     (newCompiler (bundleProject noArtifacts) None (options False [''A''] None)) [''A''] newDriver
   = Inr []
   \<and> snd (compileContracts_json (bundleProject noArtifacts)
     (newCompiler (bundleProject noArtifacts) None (options False [''A''] None)) [''A''] True newDriver)
   = Inr []"
  using json_outputs_empty [where c = "bundleProject noArtifacts"
      and this = "newCompiler (bundleProject noArtifacts) None (options False [''A''] None)"
      and names = "[''A'']" and d = newDriver and persist = True]
  by (simp add: json_defs scenario_defs registry_defs)

text \<open>
  Counterexample to claim C9 as stated: asked for a bundle \<open>B\<close> that the resolver does not
  find, \<open>getCompilerOutputsAsync\<close> throws and returns no array.
\<close>

theorem json_outputs_throw:
  "getCompilerOutputs_json (bundleProject noArtifacts)
     (newCompiler (bundleProject noArtifacts) None (options False [''B''] None)) [''B''] newDriver
   = Inl (NameResolutionError ''B'')"
  by (simp add: getCompilerOutputs_json_def json_defs scenario_defs registry_defs)

section \<open>The JSON driver: no cache gate\<close>


lemma chooseSolcVersion_json_artifacts:
  "chooseSolcVersion_json (c\<lparr>getContractArtifactIfExists := g\<rparr>) this releases contents =
   chooseSolcVersion_json c this releases contents"
  by (simp add: chooseSolcVersion_json_def versionRangeOf_def)

lemma compileBundle_artifacts:
  assumes "wrappers_json st = wrappers_json st'"
    and "compileCalls st = compileCalls st'"
    and "written_json st = written_json st'"
  shows "wrappers_json (fst (compileBundle (c\<lparr>getContractArtifactIfExists := g\<rparr>) this persist releases n st))
           = wrappers_json (fst (compileBundle c this persist releases n st'))
       \<and> compileCalls (fst (compileBundle (c\<lparr>getContractArtifactIfExists := g\<rparr>) this persist releases n st))
           = compileCalls (fst (compileBundle c this persist releases n st'))
       \<and> written_json (fst (compileBundle (c\<lparr>getContractArtifactIfExists := g\<rparr>) this persist releases n st))
           = written_json (fst (compileBundle c this persist releases n st'))
       \<and> snd (compileBundle (c\<lparr>getContractArtifactIfExists := g\<rparr>) this persist releases n st)
           = snd (compileBundle c this persist releases n st')"
  using assms
  by (simp add: compileBundle_def chooseSolcVersion_json_artifacts Let_def
      persistCompiledContract_json_def split: sum.splits prod.splits)

lemma compileBundles_artifacts:
  assumes "wrappers_json st = wrappers_json st'"
    and "compileCalls st = compileCalls st'"
    and "written_json st = written_json st'"
  shows "wrappers_json (fst (compileBundles (c\<lparr>getContractArtifactIfExists := g\<rparr>) this persist releases ns st))
           = wrappers_json (fst (compileBundles c this persist releases ns st'))
       \<and> compileCalls (fst (compileBundles (c\<lparr>getContractArtifactIfExists := g\<rparr>) this persist releases ns st))
           = compileCalls (fst (compileBundles c this persist releases ns st'))
       \<and> written_json (fst (compileBundles (c\<lparr>getContractArtifactIfExists := g\<rparr>) this persist releases ns st))
           = written_json (fst (compileBundles c this persist releases ns st'))
       \<and> snd (compileBundles (c\<lparr>getContractArtifactIfExists := g\<rparr>) this persist releases ns st)
           = snd (compileBundles c this persist releases ns st')"
  using assms
proof (induction ns arbitrary: st st')
  case Nil
  then show ?case by simp
next
  case (Cons n ns)
  let ?a = "compileBundle (c\<lparr>getContractArtifactIfExists := g\<rparr>) this persist releases n st"
  let ?b = "compileBundle c this persist releases n st'"
  have step: "wrappers_json (fst ?a) = wrappers_json (fst ?b)"
    "compileCalls (fst ?a) = compileCalls (fst ?b)"
    "written_json (fst ?a) = written_json (fst ?b)"
    "snd ?a = snd ?b"
    using compileBundle_artifacts[OF Cons.prems] by simp_all
  show ?case
  proof (cases "snd ?b")
    case None
    with step show ?thesis
      using Cons.IH[OF step(1) step(2) step(3)]
      by (simp add: case_prod_unfold)
  next
    case (Some e)
    with step show ?thesis
      by (simp add: case_prod_unfold)
  qed
qed

lemma compileBundle_hash:
  assumes "\<forall>e \<in> set (pathToData_json st). sourceTreeHashHex (snd e) = ''0x''"
  shows "\<forall>e \<in> set (pathToData_json (fst (compileBundle c this persist releases n st))).
           sourceTreeHashHex (snd e) = ''0x''"
  using assms
  by (auto simp: compileBundle_def Let_def split: sum.splits prod.splits dest!: set_update_cases)

lemma compileBundles_hash:
  assumes "\<forall>e \<in> set (pathToData_json st). sourceTreeHashHex (snd e) = ''0x''"
  shows "\<forall>e \<in> set (pathToData_json (fst (compileBundles c this persist releases ns st))).
           sourceTreeHashHex (snd e) = ''0x''"
  using assms
proof (induction ns arbitrary: st)
  case Nil
  then show ?case by simp
next
  case (Cons n ns)
  from compileBundle_hash[OF Cons.prems]
  have h: "\<forall>e \<in> set (pathToData_json (fst (compileBundle c this persist releases n st))).
           sourceTreeHashHex (snd e) = ''0x''" .
  show ?case
  proof (cases "snd (compileBundle c this persist releases n st)")
    case None
    with Cons.IH[OF h] show ?thesis by (simp add: case_prod_unfold)
  next
    case (Some e)
    with h show ?thesis by (simp add: case_prod_unfold)
  qed
qed

text \<open>What a completed iteration has done.\<close>

lemma compileBundle_done:
  assumes "compileBundle c this persist rel n st = (st', None)"
  obtains src solc res v where "resolveJSON c n = Inr src"
    and "chooseSolcVersion_json c this rel (bundleOf c n) = Inr v"
    and "getSolcWrapperForVersion v (wrappers_json st) = Inr (solc, wrappers_json st')"
    and "compileAsync c solc (bundleOf c n) [] = Inr res"
    and "compileCalls st' = compileCalls st @ [(solc, bundleOf c n)]"
    and "written_json st' =
           written_json st @ (if persist then bundleWrites c this rel n solc else [])"
    and "pathToData_json st' =
           AList.update (path src)
             \<lparr>currentArtifactIfExists =
                getContractArtifactIfExists c (artifactsDir (opts this)) n,
              sourceTreeHashHex = ''0x'',
              contractName = basename n (SOLIDITY_FILE_EXTENSION c)\<rparr>
             (pathToData_json st)"
  using assms
  by (auto simp: compileBundle_def bundleOf_def bundleWrites_def Let_def
      split: sum.splits prod.splits if_splits)

lemma compileBundles_done:
  assumes "compileBundles c this persist rel ns st = (st', None)"
  shows "\<exists>cs. compileCalls st' = compileCalls st @ cs \<and>
           list_all2 (\<lambda>n call. snd call = bundleOf c n \<and>
                        (\<exists>res. compileAsync c (fst call) (bundleOf c n) [] = Inr res)) ns cs \<and>
           written_json st' =
             written_json st @
               (if persist
                then concat (map (\<lambda>(n, call). bundleWrites c this rel n (fst call)) (zip ns cs))
                else [])"
  using assms
proof (induction ns arbitrary: st)
  case Nil
  then show ?case by simp
next
  case (Cons n ns)
  then obtain st1 where
    a: "compileBundle c this persist rel n st = (st1, None)" and
    b: "compileBundles c this persist rel ns st1 = (st', None)"
    by (auto split: prod.splits option.splits)
  from a obtain solc res where
    r: "compileAsync c solc (bundleOf c n) [] = Inr res" and
    k: "compileCalls st1 = compileCalls st @ [(solc, bundleOf c n)]" and
    w: "written_json st1 =
           written_json st @ (if persist then bundleWrites c this rel n solc else [])"
    by (rule compileBundle_done)
  from Cons.IH[OF b] obtain cs where
    k': "compileCalls st' = compileCalls st1 @ cs" and
    l': "list_all2 (\<lambda>n call. snd call = bundleOf c n \<and>
                        (\<exists>res. compileAsync c (fst call) (bundleOf c n) [] = Inr res)) ns cs" and
    w': "written_json st' =
             written_json st1 @
               (if persist
                then concat (map (\<lambda>(n, call). bundleWrites c this rel n (fst call)) (zip ns cs))
                else [])"
    by blast
  let ?cs = "(solc, bundleOf c n) # cs"
  have "compileCalls st' = compileCalls st @ ?cs" using k k' by simp
  moreover have "list_all2 (\<lambda>n call. snd call = bundleOf c n \<and>
                        (\<exists>res. compileAsync c (fst call) (bundleOf c n) [] = Inr res))
                   (n # ns) ?cs"
    using l' r by simp
  moreover have "written_json st' =
             written_json st @
               (if persist
                then concat (map (\<lambda>(n, call). bundleWrites c this rel n (fst call))
                               (zip (n # ns) ?cs))
                else [])"
    using w w' by simp
  ultimately show ?case by blast
qed

text \<open>A record with the constant hash is made for each bundle, and stays or is replaced by one.\<close>

lemma compileBundle_records:
  assumes "compileBundle c this persist rel n st = (st', None)"
    and "\<forall>m \<in> N. \<exists>src data. resolveJSON c m = Inr src \<and>
            map_of (pathToData_json st) (path src) = Some data \<and> sourceTreeHashHex data = ''0x''"
  shows "\<forall>m \<in> insert n N. \<exists>src data. resolveJSON c m = Inr src \<and>
            map_of (pathToData_json st') (path src) = Some data \<and> sourceTreeHashHex data = ''0x''"
proof -
  from assms(1) obtain src where
    r: "resolveJSON c n = Inr src" and
    p: "pathToData_json st' =
           AList.update (path src)
             \<lparr>currentArtifactIfExists =
                getContractArtifactIfExists c (artifactsDir (opts this)) n,
              sourceTreeHashHex = ''0x'',
              contractName = basename n (SOLIDITY_FILE_EXTENSION c)\<rparr>
             (pathToData_json st)"
    by (rule compileBundle_done)
  show ?thesis
  proof
    fix m assume "m \<in> insert n N"
    then show "\<exists>src data. resolveJSON c m = Inr src \<and>
            map_of (pathToData_json st') (path src) = Some data \<and> sourceTreeHashHex data = ''0x''"
    proof
      assume "m = n"
      with r p show ?thesis by (auto simp: update_conv')
    next
      assume "m \<in> N"
      with assms(2) obtain s' data where
        "resolveJSON c m = Inr s'" "map_of (pathToData_json st) (path s') = Some data"
        "sourceTreeHashHex data = ''0x''"
        by blast
      with p show ?thesis by (cases "path s' = path src") (auto simp: update_conv')
    qed
  qed
qed

lemma compileBundles_records:
  assumes "compileBundles c this persist rel ns st = (st', None)"
    and "\<forall>m \<in> N. \<exists>src data. resolveJSON c m = Inr src \<and>
            map_of (pathToData_json st) (path src) = Some data \<and> sourceTreeHashHex data = ''0x''"
  shows "\<forall>m \<in> N \<union> set ns. \<exists>src data. resolveJSON c m = Inr src \<and>
            map_of (pathToData_json st') (path src) = Some data \<and> sourceTreeHashHex data = ''0x''"
  using assms
proof (induction ns arbitrary: st N)
  case Nil
  then show ?case by simp
next
  case (Cons n ns)
  then obtain st1 where
    a: "compileBundle c this persist rel n st = (st1, None)" and
    b: "compileBundles c this persist rel ns st1 = (st', None)"
    by (auto split: prod.splits option.splits)
  from Cons.IH[OF b compileBundle_records[OF a Cons.prems(2)]] show ?case by simp
qed

text \<open>
  Claim C10. The JSON driver never consults the cache gate. Whatever artifacts are on disk
  (\<open>g\<close> in place of the artifacts of \<open>c\<close>), a run makes the same calls of the back-end,
  writes the same files and ends the same way. When a run completes, it has called the
  back-end once for each requested bundle, in order, on the contents of that bundle, and
  each of these calls has returned a result; when persisting, the files written are those
  of the results of these calls, bundle after bundle; and for each requested bundle the
  map holds, under the path the bundle resolved to, a record with the constant source-tree
  hash \<open>0x\<close>. No record of the map carries another hash.
\<close>

theorem json_driver_skips_gate:
  "compileCalls (fst (compileContracts_json (c\<lparr>getContractArtifactIfExists := g\<rparr>) this names persist d))
     = compileCalls (fst (compileContracts_json c this names persist d))
   \<and> written_json (fst (compileContracts_json (c\<lparr>getContractArtifactIfExists := g\<rparr>) this names persist d))
     = written_json (fst (compileContracts_json c this names persist d))
   \<and> snd (compileContracts_json (c\<lparr>getContractArtifactIfExists := g\<rparr>) this names persist d)
     = snd (compileContracts_json c this names persist d)
   \<and> (getSolcJSVersionList c (isOfflineMode (opts this)) = Inr releases \<and>
       snd (compileContracts_json c this names persist d) = Inr outs
        \<longrightarrow> list_all2 (\<lambda>n call. snd call = bundleOf c n \<and>
                          (\<exists>res. compileAsync c (fst call) (bundleOf c n) [] = Inr res))
              names (compileCalls (fst (compileContracts_json c this names persist d)))
          \<and> written_json (fst (compileContracts_json c this names persist d))
              = (if persist
                 then concat (map (\<lambda>(n, call). bundleWrites c this releases n (fst call))
                        (zip names (compileCalls (fst (compileContracts_json c this names persist d)))))
                 else [])
          \<and> (\<forall>n \<in> set names. \<exists>src data. resolveJSON c n = Inr src \<and>
                map_of (pathToData_json (fst (compileContracts_json c this names persist d)))
                  (path src) = Some data \<and>
                sourceTreeHashHex data = ''0x''))
   \<and> (\<forall>e \<in> set (pathToData_json (fst (compileContracts_json c this names persist d))).
        sourceTreeHashHex (snd e) = ''0x'')"
proof (cases "getSolcJSVersionList c (isOfflineMode (opts this))")
  case (Inl e)
  then show ?thesis
    by (simp add: compileContracts_json_def newJSONRun_def)
next
  case (Inr rel)
  let ?s = "newJSONRun d"
  let ?r = "compileBundles c this persist rel names ?s"
  have obs: "compileCalls (fst (compileBundles (c\<lparr>getContractArtifactIfExists := g\<rparr>) this persist rel names ?s))
           = compileCalls (fst ?r)"
       "written_json (fst (compileBundles (c\<lparr>getContractArtifactIfExists := g\<rparr>) this persist rel names ?s))
           = written_json (fst ?r)"
       "snd (compileBundles (c\<lparr>getContractArtifactIfExists := g\<rparr>) this persist rel names ?s)
           = snd ?r"
    using compileBundles_artifacts[where st = ?s and st' = ?s and c = c and g = g and this = this
        and persist = persist and releases = rel and ns = names] by simp_all
  have hash: "\<forall>e \<in> set (pathToData_json (fst ?r)). sourceTreeHashHex (snd e) = ''0x''"
    by (rule compileBundles_hash) (simp add: newJSONRun_def)
  have completed: "snd ?r = None \<Longrightarrow>
      list_all2 (\<lambda>n call. snd call = bundleOf c n \<and>
                          (\<exists>res. compileAsync c (fst call) (bundleOf c n) [] = Inr res))
              names (compileCalls (fst ?r))
      \<and> written_json (fst ?r)
              = (if persist
                 then concat (map (\<lambda>(n, call). bundleWrites c this rel n (fst call))
                        (zip names (compileCalls (fst ?r))))
                 else [])
      \<and> (\<forall>n \<in> set names. \<exists>src data. resolveJSON c n = Inr src \<and>
                map_of (pathToData_json (fst ?r)) (path src) = Some data \<and>
                sourceTreeHashHex data = ''0x'')"
  proof -
    assume "snd ?r = None"
    then have run: "compileBundles c this persist rel names ?s = (fst ?r, None)"
      by (simp add: prod_eq_iff)
    from compileBundles_done[OF run] obtain cs where
      k: "compileCalls (fst ?r) = compileCalls ?s @ cs" and
      l: "list_all2 (\<lambda>n call. snd call = bundleOf c n \<and>
                        (\<exists>res. compileAsync c (fst call) (bundleOf c n) [] = Inr res)) names cs" and
      w: "written_json (fst ?r) =
             written_json ?s @
               (if persist
                then concat (map (\<lambda>(n, call). bundleWrites c this rel n (fst call)) (zip names cs))
                else [])"
      by blast
    from k have cs: "cs = compileCalls (fst ?r)" by (simp add: newJSONRun_def)
    have w0: "written_json ?s = []" by (simp add: newJSONRun_def)
    have "\<forall>m \<in> {} \<union> set names. \<exists>src data. resolveJSON c m = Inr src \<and>
            map_of (pathToData_json (fst ?r)) (path src) = Some data \<and>
            sourceTreeHashHex data = ''0x''"
      by (rule compileBundles_records[OF run]) simp
    then have rec: "\<forall>n \<in> set names. \<exists>src data. resolveJSON c n = Inr src \<and>
            map_of (pathToData_json (fst ?r)) (path src) = Some data \<and>
            sourceTreeHashHex data = ''0x''"
      by simp
    from l w rec show ?thesis unfolding cs [symmetric] w0 by (intro conjI) simp_all
  qed
  from Inr obs hash completed show ?thesis
    by (auto simp: compileContracts_json_def case_prod_unfold split: option.splits)
qed

lemma bundleA_run:
  "getSolcJSVersionList (bundleProject upToDate)
     (isOfflineMode (opts (newCompiler (bundleProject upToDate) None (options False [''A''] None))))
     = Inr releaseIndex"
  "snd (compileAsync_json (bundleProject upToDate)
        (newCompiler (bundleProject upToDate) None (options False [''A''] None)) [''A''] newDriver)
     = Inr []"
  "compileCalls (fst (compileAsync_json (bundleProject upToDate)
        (newCompiler (bundleProject upToDate) None (options False [''A''] None)) [''A''] newDriver))
     = [(wrapper06, [(''A.sol'', ''pragma solidity ^0.6.0;'')])]"
  "map producedFrom (written_json (fst (compileAsync_json (bundleProject upToDate)
        (newCompiler (bundleProject upToDate) None (options False [''A''] None)) [''A''] newDriver)))
     = [(''art/A-A.json'', ''A'', [])]"
  "map (\<lambda>e. (fst e, sourceTreeHashHex (snd e), currentArtifactIfExists (snd e) = None))
       (pathToData_json (fst (compileAsync_json (bundleProject upToDate)
        (newCompiler (bundleProject upToDate) None (options False [''A''] None)) [''A''] newDriver)))
     = [(''A.sol'', ''0x'', False)]"
  "compileAsync (bundleProject upToDate) wrapper06 (bundleOf (bundleProject upToDate) ''A'') []
     = Inr (echoResult [(''A.sol'', ''pragma solidity ^0.6.0;'')])"
  "map producedFrom
     (bundleWrites (bundleProject upToDate)
        (newCompiler (bundleProject upToDate) None (options False [''A''] None))
        releaseIndex ''A'' wrapper06)
     = [(''art/A-A.json'', ''A'', [])]"
  by code_simp+

text \<open>
  With an artifact for \<open>A\<close> on disk that has the current schema version, settings and hash,
  a run still compiles the bundle \<open>A\<close> once and writes its artifact again.
\<close>

theorem json_driver_skips_gate_witness:
  "getSolcJSVersionList (bundleProject upToDate)
     (isOfflineMode (opts (newCompiler (bundleProject upToDate) None (options False [''A''] None))))
     = Inr releaseIndex
   \<and> snd (compileAsync_json (bundleProject upToDate)
        (newCompiler (bundleProject upToDate) None (options False [''A''] None)) [''A''] newDriver)
     = Inr []
   \<and> compileCalls (fst (compileAsync_json (bundleProject upToDate)
        (newCompiler (bundleProject upToDate) None (options False [''A''] None)) [''A''] newDriver))
     = [(wrapper06, [(''A.sol'', ''pragma solidity ^0.6.0;'')])]
   \<and> compileAsync (bundleProject upToDate) wrapper06 (bundleOf (bundleProject upToDate) ''A'') []
     = Inr (echoResult [(''A.sol'', ''pragma solidity ^0.6.0;'')])
   \<and> written_json (fst (compileAsync_json (bundleProject upToDate)
        (newCompiler (bundleProject upToDate) None (options False [''A''] None)) [''A''] newDriver))
     = bundleWrites (bundleProject upToDate)
        (newCompiler (bundleProject upToDate) None (options False [''A''] None))
        releaseIndex ''A'' wrapper06
   \<and> map producedFrom (written_json (fst (compileAsync_json (bundleProject upToDate)
        (newCompiler (bundleProject upToDate) None (options False [''A''] None)) [''A''] newDriver)))
     = [(''art/A-A.json'', ''A'', [])]
   \<and> map (\<lambda>e. (fst e, sourceTreeHashHex (snd e), currentArtifactIfExists (snd e) = None))
       (pathToData_json (fst (compileAsync_json (bundleProject upToDate)
        (newCompiler (bundleProject upToDate) None (options False [''A''] None)) [''A''] newDriver)))
     = [(''A.sol'', ''0x'', False)]"
proof -
  note run = json_driver_skips_gate [where c = "bundleProject upToDate"
      and this = "newCompiler (bundleProject upToDate) None (options False [''A''] None)"
      and names = "[''A'']" and d = newDriver and persist = True and outs = "[]"
      and releases = releaseIndex and g = "\<lambda>dir. noArtifacts",
      folded compileAsync_json_def]
  have "written_json (fst (compileAsync_json (bundleProject upToDate)
        (newCompiler (bundleProject upToDate) None (options False [''A''] None)) [''A''] newDriver))
     = bundleWrites (bundleProject upToDate)
        (newCompiler (bundleProject upToDate) None (options False [''A''] None))
        releaseIndex ''A'' wrapper06"
    using run [THEN conjunct2, THEN conjunct2, THEN conjunct2, THEN conjunct1]
    by (simp add: bundleA_run(1-3))
  with bundleA_run show ?thesis by (simp only: simp_thms)
qed

section \<open>The version pin\<close>

text \<open>
  Claim C4, as amended. The pin is the version that \<open>getSolcJSVersionFromPath\<close> reads from
  \<open>SOLCJS_PATH\<close> when that variable is set, and the option \<open>solcVersion\<close> otherwise. When a
  pin is set (a non-empty string), the version chosen for a contract is the pin itself,
  verbatim and not normalized, whatever the source and the release index are; every key of
  a completed plan is the pin; and the leading \<open>v\<close> is stripped only when the wrapper is
  looked up: the wrapper that compiles was constructed for the normalized pin and is
  registered under it.
\<close>

theorem version_pin:
  "solcVersionIfExists (newCompiler c (Some envPath) options') = Some (getSolcJSVersionFromPath c envPath)
   \<and> solcVersionIfExists (newCompiler c None options') = solcVersionOpt options'
   \<and> (truthy (solcVersionIfExists this)
        \<longrightarrow> chooseSolcVersion c this releases src = Inr (the (solcVersionIfExists this)))
   \<and> (truthy (solcVersionIfExists this) \<and>
        planContracts c this independently releases names (emptyPlan, d) = Inr (plan, d')
        \<longrightarrow> set (map fst (compilationUnitsByVersion plan)) \<subseteq> {the (solcVersionIfExists this)})
   \<and> (registryOk d1 \<and> getSolcWrapperForVersion (the (solcVersionIfExists this)) d1 = Inr (solc, d2)
        \<longrightarrow> wrapperVersion solc = normalizeSolcVersion (the (solcVersionIfExists this)) \<and>
            map_of (solcWrappersByVersion d2) (normalizeSolcVersion (the (solcVersionIfExists this)))
              = Some solc)"
proof (intro conjI impI)
  show "solcVersionIfExists (newCompiler c (Some envPath) options') = Some (getSolcJSVersionFromPath c envPath)"
    by (simp add: newCompiler_def)
  show "solcVersionIfExists (newCompiler c None options') = solcVersionOpt options'"
    by (simp add: newCompiler_def)
next
  assume "truthy (solcVersionIfExists this)"
  then show "chooseSolcVersion c this releases src = Inr (the (solcVersionIfExists this))"
    by (rule chooseSolcVersion_pin)
next
  assume h: "truthy (solcVersionIfExists this) \<and>
        planContracts c this independently releases names (emptyPlan, d) = Inr (plan, d')"
  then have t: "truthy (solcVersionIfExists this)"
    and p: "planContracts c this independently releases names (emptyPlan, d) = Inr (plan, d')"
    by simp_all
  show "set (map fst (compilationUnitsByVersion plan)) \<subseteq> {the (solcVersionIfExists this)}"
    by (rule planContracts_pin_keys[OF t p]) (simp add: emptyPlan_def)
next
  assume h: "registryOk d1 \<and> getSolcWrapperForVersion (the (solcVersionIfExists this)) d1 = Inr (solc, d2)"
  then have ok: "registryOk d1"
    and g: "getSolcWrapperForVersion (the (solcVersionIfExists this)) d1 = Inr (solc, d2)"
    by simp_all
  from getSolcWrapper_ok[OF ok g]
  show "wrapperVersion solc = normalizeSolcVersion (the (solcVersionIfExists this))" by simp
  from g show "map_of (solcWrappersByVersion d2) (normalizeSolcVersion (the (solcVersionIfExists this)))
              = Some solc"
    by (rule getSolcWrapper_registers)
qed

lemma pinned_choice:
  "chooseSolcVersion projectA (newCompiler projectA None (options False [''A''] (Some pinV)))
     releaseIndex (source (sol ''A'' ''^0.6.0'')) = Inr pinV"
  by code_simp

lemma pinned_plan:
  "planContracts projectA (newCompiler projectA None (options False [''A''] (Some pinV))) False
     releaseIndex [''A''] (emptyPlan, newDriver) = Inr (planA pinV, newDriver)"
  by code_simp

lemma pinned_wrapper: "getSolcWrapperForVersion pinV newDriver = Inr (wrapper06, driver06)"
  by code_simp

lemma pinned_truthy:
  "truthy (solcVersionIfExists (newCompiler projectA None (options False [''A''] (Some pinV))))"
  by code_simp

lemma pinned_the:
  "the (solcVersionIfExists (newCompiler projectA None (options False [''A''] (Some pinV)))) = pinV"
  by code_simp

lemma registryOk_new: "registryOk newDriver"
  by (simp add: registryOk_def newDriver_def)

text \<open>The project of the one file \<open>A.sol\<close>, pinned by the option to a version written with \<open>v\<close>.\<close>

theorem version_pin_witness:
  "truthy (solcVersionIfExists (newCompiler projectA None (options False [''A''] (Some pinV))))
   \<and> planContracts projectA (newCompiler projectA None (options False [''A''] (Some pinV))) False
       releaseIndex [''A''] (emptyPlan, newDriver) = Inr (planA pinV, newDriver)
   \<and> chooseSolcVersion projectA (newCompiler projectA None (options False [''A''] (Some pinV)))
       releaseIndex (source (sol ''A'' ''^0.6.0'')) = Inr pinV
   \<and> set (map fst (compilationUnitsByVersion (planA pinV))) \<subseteq> {pinV}
   \<and> registryOk newDriver
   \<and> getSolcWrapperForVersion pinV newDriver = Inr (wrapper06, driver06)
   \<and> wrapperVersion wrapper06 = normalizeSolcVersion pinV
   \<and> map_of (solcWrappersByVersion driver06) (normalizeSolcVersion pinV) = Some wrapper06"
  using version_pin [where c = projectA
      and this = "newCompiler projectA None (options False [''A''] (Some pinV))"
      and releases = releaseIndex and src = "source (sol ''A'' ''^0.6.0'')"
      and independently = False and names = "[''A'']" and d = newDriver
      and plan = "planA pinV" and d' = newDriver
      and ?d1.0 = newDriver and solc = wrapper06 and ?d2.0 = driver06]
    pinned_choice pinned_plan pinned_wrapper pinned_truthy pinned_the registryOk_new
  by simp

text \<open>
  Counterexample to claim C4 as stated: with the pin \<open>v0.6.12+commit.27d51765\<close>, which the
  options schema admits, the version chosen for \<open>A\<close> and recorded in its artifact is the pin
  with its \<open>v\<close>, not the normalized \<open>0.6.12+commit.27d51765\<close>.
\<close>

theorem version_pin_not_normalized:
  "chooseSolcVersion projectA (newCompiler projectA None (options False [''A''] (Some pinV)))
     releaseIndex (source (sol ''A'' ''^0.6.0'')) = Inr ''v0.6.12+commit.27d51765''
   \<and> normalizeSolcVersion pinV = ''0.6.12+commit.27d51765''
   \<and> map (\<lambda>w. (fst w, version (compiler (snd w))))
       (fst (compileAsync_run projectA
              (newCompiler projectA None (options False [''A''] (Some pinV))) newDriver))
     = [(''art/A-A.json'', ''v0.6.12+commit.27d51765'')]"
  by code_simp

section \<open>Selecting a version without a pin\<close>

lemma chooseSolcVersion_semver:
  assumes nopin: "\<not> truthy (solcVersionIfExists this)"
    and semver: "\<forall>vs r. (case maxSatisfying c vs r of
                   None \<Rightarrow> (\<forall>v \<in> set vs. \<not> satisfies v r)
                 | Some v \<Rightarrow> v \<noteq> [] \<and> v \<in> set vs \<and> satisfies v r \<and>
                            (\<forall>w \<in> set vs. satisfies w r \<longrightarrow> lesseq w v))"
  shows "(case chooseSolcVersion c this releases src of
            Inl e \<Rightarrow>
              e = UnsatisfiableVersionError (parseSolidityVersionRange c src) \<and>
              (\<forall>v \<in> set (map fst releases). \<not> satisfies v (parseSolidityVersionRange c src))
          | Inr chosen \<Rightarrow>
              (\<exists>v full. v \<in> set (map fst releases) \<and>
                 satisfies v (parseSolidityVersionRange c src) \<and>
                 (\<forall>w \<in> set (map fst releases).
                    satisfies w (parseSolidityVersionRange c src) \<longrightarrow> lesseq w v) \<and>
                 map_of releases v = Some full \<and> chosen = normalizeSolcVersion full))"
proof (cases "maxSatisfying c (map fst releases) (parseSolidityVersionRange c src)")
  case None
  with semver[rule_format, of "map fst releases" "parseSolidityVersionRange c src"]
  have "\<forall>v \<in> set (map fst releases). \<not> satisfies v (parseSolidityVersionRange c src)"
    by simp
  with None nopin show ?thesis
    by (simp add: chooseSolcVersion_def truthy_def)
next
  case (Some v)
  with semver[rule_format, of "map fst releases" "parseSolidityVersionRange c src"]
  have v: "v \<noteq> []" "v \<in> set (map fst releases)" "satisfies v (parseSolidityVersionRange c src)"
    "\<forall>w \<in> set (map fst releases). satisfies w (parseSolidityVersionRange c src) \<longrightarrow> lesseq w v"
    by simp_all
  from v(2) obtain full where full: "map_of releases v = Some full"
    by (cases "map_of releases v") (auto simp: map_of_eq_None_iff)
  with Some nopin v(1) have "chooseSolcVersion c this releases src = Inr (normalizeSolcVersion full)"
    by (simp add: chooseSolcVersion_def truthy_def)
  with v full show ?thesis by auto
qed

lemma chooseSolcVersion_unsatisfiable:
  assumes nopin: "\<not> truthy (solcVersionIfExists this)"
    and semver: "\<forall>vs r. (case maxSatisfying c vs r of
                   None \<Rightarrow> (\<forall>v \<in> set vs. \<not> satisfies v r)
                 | Some v \<Rightarrow> v \<noteq> [] \<and> v \<in> set vs \<and> satisfies v r \<and>
                            (\<forall>w \<in> set vs. satisfies w r \<longrightarrow> lesseq w v))"
    and none: "\<forall>v \<in> set (map fst releases). \<not> satisfies v (parseSolidityVersionRange c src)"
  shows "chooseSolcVersion c this releases src
         = Inl (UnsatisfiableVersionError (parseSolidityVersionRange c src))"
  using chooseSolcVersion_semver[OF nopin semver, where releases = releases and src = src] none
  by (cases "chooseSolcVersion c this releases src") auto

text \<open>
  Claim C5. Let no pin be set, and let \<open>semver.maxSatisfying\<close> do what its name says for
  some reading \<open>satisfies\<close> of range satisfaction and some order \<open>lesseq\<close> of versions: it
  returns a greatest version of the list among those that satisfy the range, and nothing
  when none does. Then the selector either chooses the normalized full version that the
  release index gives for a greatest satisfying short version, or fails with
  \<open>UnsatisfiableVersionError\<close>, and it fails only when no indexed version satisfies the
  constraint. And when planning reaches a contract that passes the cache gate and whose
  constraint no indexed version satisfies, the run fails with \<open>UnsatisfiableVersionError\<close>
  and has written no file.
\<close>

theorem version_selection:
  assumes nopin: "\<not> truthy (solcVersionIfExists this)"
    and semver: "\<forall>vs r. (case maxSatisfying c vs r of
                   None \<Rightarrow> (\<forall>v \<in> set vs. \<not> satisfies v r)
                 | Some v \<Rightarrow> v \<noteq> [] \<and> v \<in> set vs \<and> satisfies v r \<and>
                            (\<forall>w \<in> set vs. satisfies w r \<longrightarrow> lesseq w v))"
  shows "(case chooseSolcVersion c this releases src of
            Inl e \<Rightarrow>
              e = UnsatisfiableVersionError (parseSolidityVersionRange c src) \<and>
              (\<forall>v \<in> set (map fst releases). \<not> satisfies v (parseSolidityVersionRange c src))
          | Inr chosen \<Rightarrow>
              (\<exists>v full. v \<in> set (map fst releases) \<and>
                 satisfies v (parseSolidityVersionRange c src) \<and>
                 (\<forall>w \<in> set (map fst releases).
                    satisfies w (parseSolidityVersionRange c src) \<longrightarrow> lesseq w v) \<and>
                 map_of releases v = Some full \<and> chosen = normalizeSolcVersion full))
       \<and> (getSolcJSVersionList c (isOfflineMode (opts this)) = Inr index \<and>
          planContracts c this independently index before (emptyPlan, d) = Inr s \<and>
          resolveTree c n = Inr walk \<and>
          shouldCompile c
            \<lparr>currentArtifactIfExists = getContractArtifactIfExists c (artifactsDir (opts this)) n,
             sourceTreeHashHex = ''0x'' @ sourceTreeHash walk,
             contractName = basename n (SOLIDITY_FILE_EXTENSION c)\<rparr> (snd s) = Inr (True, d') \<and>
          (\<forall>v \<in> set (map fst index).
             \<not> satisfies v (parseSolidityVersionRange c (source (root walk))))
          \<longrightarrow> compileContracts c this (before @ n # after) shouldPersist independently d
              = ([], Inl (UnsatisfiableVersionError
                            (parseSolidityVersionRange c (source (root walk))))))"
proof (intro conjI impI)
  show "(case chooseSolcVersion c this releases src of
            Inl e \<Rightarrow>
              e = UnsatisfiableVersionError (parseSolidityVersionRange c src) \<and>
              (\<forall>v \<in> set (map fst releases). \<not> satisfies v (parseSolidityVersionRange c src))
          | Inr chosen \<Rightarrow>
              (\<exists>v full. v \<in> set (map fst releases) \<and>
                 satisfies v (parseSolidityVersionRange c src) \<and>
                 (\<forall>w \<in> set (map fst releases).
                    satisfies w (parseSolidityVersionRange c src) \<longrightarrow> lesseq w v) \<and>
                 map_of releases v = Some full \<and> chosen = normalizeSolcVersion full))"
    by (rule chooseSolcVersion_semver[OF nopin semver])
next
  assume h: "getSolcJSVersionList c (isOfflineMode (opts this)) = Inr index \<and>
          planContracts c this independently index before (emptyPlan, d) = Inr s \<and>
          resolveTree c n = Inr walk \<and>
          shouldCompile c
            \<lparr>currentArtifactIfExists = getContractArtifactIfExists c (artifactsDir (opts this)) n,
             sourceTreeHashHex = ''0x'' @ sourceTreeHash walk,
             contractName = basename n (SOLIDITY_FILE_EXTENSION c)\<rparr> (snd s) = Inr (True, d') \<and>
          (\<forall>v \<in> set (map fst index).
             \<not> satisfies v (parseSolidityVersionRange c (source (root walk))))"
  then have "chooseSolcVersion c this index (source (root walk))
         = Inl (UnsatisfiableVersionError (parseSolidityVersionRange c (source (root walk))))"
    using chooseSolcVersion_unsatisfiable[OF nopin semver] by blast
  with h have "planContract c this independently index n s
         = Inl (UnsatisfiableVersionError (parseSolidityVersionRange c (source (root walk))))"
    by (simp add: planContract_def)
  with h have "planContracts c this independently index (before @ n # after) (emptyPlan, d)
         = Inl (UnsatisfiableVersionError (parseSolidityVersionRange c (source (root walk))))"
    by (simp add: planContracts_append)
  with h show "compileContracts c this (before @ n # after) shouldPersist independently d
              = ([], Inl (UnsatisfiableVersionError
                            (parseSolidityVersionRange c (source (root walk)))))"
    by (simp add: compileContracts_def)
qed

lemma unpinned: "\<not> truthy (solcVersionIfExists (newCompiler c None (options i ns None)))"
  by (simp add: truthy_def newCompiler_def options_def)

lemma semver06:
  "\<forall>vs r. (case maxSatisfying projectA9 vs r of
             None \<Rightarrow> (\<forall>v \<in> set vs. \<not> satisfies06 v r)
           | Some v \<Rightarrow> v \<noteq> [] \<and> v \<in> set vs \<and> satisfies06 v r \<and>
                      (\<forall>w \<in> set vs. satisfies06 w r \<longrightarrow> w = v))"
  by (auto simp: projectA9_def project_def maxSatisfying06_def satisfies06_def)

lemma choice_A:
  "chooseSolcVersion projectA (newCompiler projectA None (options False [''A''] None))
     releaseIndex (source (sol ''A'' ''^0.6.0'')) = Inr ''0.6.12+commit.27d51765''"
  by code_simp

lemma run_A9:
  "compileAsync_run projectA9 (newCompiler projectA9 None (options False [''A''] None)) newDriver
   = ([], Inl (UnsatisfiableVersionError ''^9.9.9''))"
  by code_simp

lemma facts_A9:
  "getSolcJSVersionList projectA9
     (isOfflineMode (opts (newCompiler projectA9 None (options False [''A''] None)))) = Inr releaseIndex"
  "planContracts projectA9 (newCompiler projectA9 None (options False [''A''] None)) False
     releaseIndex [] (emptyPlan, newDriver) = Inr (emptyPlan, newDriver)"
  "resolveTree projectA9 ''A'' = Inr (walkOf ''A'' [] ''^9.9.9'')"
  "shouldCompile projectA9
     \<lparr>currentArtifactIfExists =
        getContractArtifactIfExists projectA9
          (artifactsDir (opts (newCompiler projectA9 None (options False [''A''] None)))) ''A'',
      sourceTreeHashHex = ''0x'' @ sourceTreeHash (walkOf ''A'' [] ''^9.9.9''),
      contractName = basename ''A'' (SOLIDITY_FILE_EXTENSION projectA9)\<rparr>
     (snd (emptyPlan, newDriver)) = Inr (True, newDriver)"
  "parseSolidityVersionRange projectA9 (source (root (walkOf ''A'' [] ''^9.9.9''))) = ''^9.9.9''"
  by code_simp+

text \<open>
  Scenarios S1 and S5: \<open>A.sol\<close> with the pragma \<open>^0.6.0\<close> gets the indexed release, and with
  the pragma \<open>^9.9.9\<close> the run fails and writes nothing.
\<close>

theorem version_selection_witness:
  "\<not> truthy (solcVersionIfExists (newCompiler projectA None (options False [''A''] None)))
   \<and> chooseSolcVersion projectA (newCompiler projectA None (options False [''A''] None))
       releaseIndex (source (sol ''A'' ''^0.6.0'')) = Inr ''0.6.12+commit.27d51765''
   \<and> satisfies06 ''0.6.12'' ''^0.6.0''
   \<and> \<not> satisfies06 ''0.6.12'' ''^9.9.9''
   \<and> resolveTree projectA9 ''A'' = Inr (walkOf ''A'' [] ''^9.9.9'')
   \<and> compileContracts projectA9 (newCompiler projectA9 None (options False [''A''] None))
       [''A''] True False newDriver
     = ([], Inl (UnsatisfiableVersionError ''^9.9.9''))"
proof -
  have sel: "\<not> satisfies06 ''0.6.12'' ''^9.9.9''" "satisfies06 ''0.6.12'' ''^0.6.0''"
    by (simp_all add: satisfies06_def)
  have none: "\<forall>v \<in> set (map fst releaseIndex).
      \<not> satisfies06 v (parseSolidityVersionRange projectA9 (source (root (walkOf ''A'' [] ''^9.9.9''))))"
    by (simp add: facts_A9(5) releaseIndex_def satisfies06_def)
  have "compileContracts projectA9 (newCompiler projectA9 None (options False [''A''] None))
       ([] @ ''A'' # []) True False newDriver
     = ([], Inl (UnsatisfiableVersionError ''^9.9.9''))"
    using version_selection [OF unpinned [of projectA9 False "[''A'']"] semver06,
        where index = releaseIndex and before = "[]" and d = newDriver and independently = False
        and s = "(emptyPlan, newDriver)" and n = "''A''" and walk = "walkOf ''A'' [] ''^9.9.9''"
        and d' = newDriver and after = "[]" and shouldPersist = True]
      facts_A9 none
    by simp
  with sel choice_A unpinned [of projectA False "[''A'']"] facts_A9(3) show ?thesis by simp
qed

section \<open>The shape of a plan\<close>

text \<open>What \<open>addToUnit\<close> builds from the empty unit.\<close>

lemma remdups_snoc:
  "remdups (ys @ [x]) = filter (\<lambda>y. y \<noteq> x) (remdups ys) @ [x]"
  by (induction ys) auto

lemma first_occurrences_Cons:
  "rev (remdups (rev (x # xs))) = x # filter (\<lambda>y. y \<noteq> x) (rev (remdups (rev xs)))"
  by (simp add: remdups_snoc rev_filter)

lemma addToUnit_Cons:
  "addToUnit (s # srcs) u = addToUnit srcs (AList.update (absolutePath s) (source s) u)"
  by (simp add: addToUnit_def)

lemma addToUnit_append:
  "addToUnit (xs @ ys) u = addToUnit ys (addToUnit xs u)"
  by (simp add: addToUnit_def)

lemma addToUnit_distinct:
  "distinct (map fst u) \<Longrightarrow> distinct (map fst (addToUnit srcs u))"
  unfolding addToUnit_def
  by (induction srcs arbitrary: u) (auto simp: distinct_update)

lemma addToUnit_order:
  "map fst (addToUnit srcs u) =
     map fst u @ filter (\<lambda>k. k \<notin> set (map fst u)) (rev (remdups (rev (map absolutePath srcs))))"
proof (induction srcs arbitrary: u)
  case Nil
  then show ?case by (simp add: addToUnit_def)
next
  case (Cons s srcs)
  let ?k = "absolutePath s"
  let ?fo = "rev (remdups (rev (map absolutePath srcs)))"
  show ?case
  proof (cases "?k \<in> set (map fst u)")
    case True
    then have "filter (\<lambda>k. k \<notin> set (map fst u)) (filter (\<lambda>y. y \<noteq> ?k) ?fo)
             = filter (\<lambda>k. k \<notin> set (map fst u)) ?fo"
      by (auto intro: filter_cong)
    with True Cons.IH[of "AList.update ?k (source s) u"] show ?thesis
      by (simp add: addToUnit_Cons update_keys first_occurrences_Cons del: rev.simps remdups.simps)
  next
    case False
    then have "filter (\<lambda>k. k \<notin> set (map fst u) \<and> k \<noteq> ?k) ?fo
             = filter (\<lambda>k. k \<notin> set (map fst u)) (filter (\<lambda>y. y \<noteq> ?k) ?fo)"
      by (auto intro: filter_cong)
    with False Cons.IH[of "AList.update ?k (source s) u"] show ?thesis
      by (simp add: addToUnit_Cons update_keys first_occurrences_Cons del: rev.simps remdups.simps)
  qed
qed

lemma addToUnit_lookup:
  "map_of (addToUnit srcs u) p =
     (if p \<in> absolutePath ` set srcs
      then Some (source (last (filter (\<lambda>s. absolutePath s = p) srcs)))
      else map_of u p)"
proof (induction srcs arbitrary: u)
  case Nil
  then show ?case by (simp add: addToUnit_def)
next
  case (Cons s srcs)
  show ?case
    by (auto simp: addToUnit_Cons Cons.IH update_conv' filter_empty_conv)
qed

lemma alist_by_keys:
  assumes "distinct (map fst xs)"
  shows "map (\<lambda>k. (k, the (map_of xs k))) (map fst xs) = xs"
proof -
  have "\<And>x. x \<in> set xs \<Longrightarrow> (fst x, the (map_of xs (fst x))) = x"
  proof -
    fix x assume "x \<in> set xs"
    with assms have "map_of xs (fst x) = Some (snd x)" by (cases x) simp
    then show "(fst x, the (map_of xs (fst x))) = x" by simp
  qed
  then have "map (\<lambda>x. (fst x, the (map_of xs (fst x)))) xs = xs"
    by (rule map_idI)
  then show ?thesis by (simp add: comp_def)
qed

lemma addToUnit_holding: "addToUnit srcs [] = unitHolding srcs"
proof -
  let ?u = "addToUnit srcs []"
  have d: "distinct (map fst ?u)" by (rule addToUnit_distinct) simp
  have k: "map fst ?u = rev (remdups (rev (map absolutePath srcs)))"
    by (simp add: addToUnit_order)
  have "?u = map (\<lambda>k. (k, the (map_of ?u k))) (map fst ?u)"
    using alist_by_keys[OF d] by simp
  also have "\<dots> = map (\<lambda>p. (p, source (last (filter (\<lambda>s. absolutePath s = p) srcs))))
                      (map fst ?u)"
    unfolding k by (rule map_cong) (auto simp: addToUnit_lookup)
  finally show ?thesis unfolding k unitHolding_def .
qed

lemma addToUnit_more:
  "addToUnit srcs (unitHolding xs) = unitHolding (xs @ srcs)"
  by (simp add: addToUnit_holding[symmetric] addToUnit_append)

text \<open>What planning one contract does, with the gate's answer.\<close>

lemma planContract_gate:
  assumes "planContract c this ind rel n s = Inr (b, p', d')"
  obtains walk where "resolveTree c n = Inr walk"
    and "shouldCompile c
           \<lparr>currentArtifactIfExists = getContractArtifactIfExists c (artifactsDir (opts this)) n,
            sourceTreeHashHex = ''0x'' @ sourceTreeHash walk,
            contractName = basename n (SOLIDITY_FILE_EXTENSION c)\<rparr> (snd s) = Inr (b, d')"
    and "\<not> b \<Longrightarrow> p' = fst s"
    and "b \<Longrightarrow> \<exists>v. chooseSolcVersion c this rel (source (root walk)) = Inr v \<and>
             compilationUnitsByVersion p' =
               AList.update v
                 (placeInUnits ind (resolvedContractSources walk) (unitsAt (fst s) v))
                 (compilationUnitsByVersion (fst s))"
  using assms
  by (auto simp: planContract_def unitsAt_def Let_def split: sum.splits prod.splits if_splits)

lemma expectedUnits_place:
  "placeInUnits ind (resolvedContractSources w) (expectedUnits ind ws) = expectedUnits ind (ws @ [w])"
  by (auto simp: placeInUnits_def expectedUnits_def addToUnit_holding addToUnit_more)

lemma planContract_holds:
  assumes step: "planContract c this ind rel n (p, d) = Inr (b, p', d')"
    and inv: "planHolds c this rel ind p L"
  shows "planHolds c this rel ind p' (L @ notSkipped c this [n] d)"
    and "notSkipped c this (n # ns) d = notSkipped c this [n] d @ notSkipped c this ns d'"
proof -
  from step obtain walk where
    r: "resolveTree c n = Inr walk" and
    g: "shouldCompile c
           \<lparr>currentArtifactIfExists = getContractArtifactIfExists c (artifactsDir (opts this)) n,
            sourceTreeHashHex = ''0x'' @ sourceTreeHash walk,
            contractName = basename n (SOLIDITY_FILE_EXTENSION c)\<rparr> d = Inr (b, d')" and
    skip: "\<not> b \<Longrightarrow> p' = p" and
    place: "b \<Longrightarrow> \<exists>v. chooseSolcVersion c this rel (source (root walk)) = Inr v \<and>
             compilationUnitsByVersion p' =
               AList.update v
                 (placeInUnits ind (resolvedContractSources walk) (unitsAt p v))
                 (compilationUnitsByVersion p)"
    by (rule planContract_gate) auto
  from r g show "notSkipped c this (n # ns) d = notSkipped c this [n] d @ notSkipped c this ns d'"
    by simp
  from r g have one: "notSkipped c this [n] d = (if b then [walk] else [])" by simp
  show "planHolds c this rel ind p' (L @ notSkipped c this [n] d)"
  proof (cases b)
    case False
    with skip one inv show ?thesis by simp
  next
    case True
    with place obtain v0 where
      v0: "chooseSolcVersion c this rel (source (root walk)) = Inr v0" and
      al: "compilationUnitsByVersion p' =
               AList.update v0
                 (placeInUnits ind (resolvedContractSources walk) (unitsAt p v0))
                 (compilationUnitsByVersion p)"
      by blast
    let ?new = "placeInUnits ind (resolvedContractSources walk) (unitsAt p v0)"
    from inv have dist: "distinct (map fst (compilationUnitsByVersion p))"
      and nonempty: "\<forall>e \<in> set (compilationUnitsByVersion p). snd e \<noteq> []"
      and units: "\<And>v. unitsAt p v = expectedUnits ind (filter (versioned c this rel v) L)"
      and vers: "\<forall>w \<in> set L. \<exists>v. versioned c this rel v w"
      and count: "ind \<Longrightarrow> unitCount p = length L"
      by (simp_all add: planHolds_def)
    have ver: "\<And>v. versioned c this rel v walk = (v = v0)"
      using v0 by (auto simp: versioned_def)
    have new: "?new = expectedUnits ind (filter (versioned c this rel v0) (L @ [walk]))"
      by (simp add: units ver expectedUnits_place)
    have "?new \<noteq> []" by (simp add: placeInUnits_def split: list.splits)
    have a: "distinct (map fst (compilationUnitsByVersion p'))"
      unfolding al using dist by (rule distinct_update)
    have b: "\<forall>e \<in> set (compilationUnitsByVersion p'). snd e \<noteq> []"
      unfolding al using nonempty \<open>?new \<noteq> []\<close> by (auto dest!: set_update_cases)
    have c: "\<And>v. unitsAt p' v = expectedUnits ind (filter (versioned c this rel v) (L @ [walk]))"
    proof -
      fix v
      show "unitsAt p' v = expectedUnits ind (filter (versioned c this rel v) (L @ [walk]))"
      proof (cases "v = v0")
        case True
        then have "unitsAt p' v = ?new" by (simp add: unitsAt_def al update_conv')
        with new True show ?thesis by simp
      next
        case False
        then have "unitsAt p' v = unitsAt p v" by (simp add: unitsAt_def al update_conv')
        with False show ?thesis by (simp add: units ver)
      qed
    qed
    have d: "\<forall>w \<in> set (L @ [walk]). \<exists>v. versioned c this rel v w"
      using vers ver by auto
    have e: "ind \<Longrightarrow> unitCount p' = length (L @ [walk])"
    proof -
      assume i: ind
      then have "?new = unitsAt p v0 @ [addToUnit (resolvedContractSources walk) []]"
        by (simp add: placeInUnits_def)
      then have "unitCount p' = Suc (unitCount p)"
        unfolding unitCount_def al
        by (simp add: update_length_sum unitsAt_def)
      with count[OF i] show ?thesis by simp
    qed
    from a b c d e True one show ?thesis by (simp add: planHolds_def)
  qed
qed

lemma planContracts_holds:
  assumes "planContracts c this ind rel ns (p, d) = Inr (p', d')"
    and "planHolds c this rel ind p L"
  shows "planHolds c this rel ind p' (L @ notSkipped c this ns d)"
  using assms
proof (induction ns arbitrary: p d L)
  case Nil
  then show ?case by simp
next
  case (Cons n ns)
  from Cons.prems(1) obtain b p1 d1 where
    a: "planContract c this ind rel n (p, d) = Inr (b, p1, d1)" and
    r: "planContracts c this ind rel ns (p1, d1) = Inr (p', d')"
    by (auto split: sum.splits)
  note st1 = planContract_holds(1)[OF a Cons.prems(2)]
  note st2 = planContract_holds(2)[OF a Cons.prems(2), where ns = ns]
  from Cons.IH[OF r st1] st2 show ?case by simp
qed

text \<open>
  Claim C6. After planning has completed, no version occurs twice among the keys of the
  plan, and the plan has exactly the versions chosen for the requested contracts that the
  cache gate did not skip. In batched mode every version of the plan has exactly one unit,
  and that unit holds exactly the sources resolved for all the unskipped contracts that got
  this version. In independent mode the plan has as many units as there are requested
  contracts that the gate did not skip, and the units of a version are, in the order of the
  request, one unit for each unskipped contract that got this version, holding exactly the
  sources resolved for that contract and nothing else.
\<close>

theorem plan_shape:
  assumes "planContracts c this independently releases names (emptyPlan, d) = Inr (plan, d')"
  shows "distinct (map fst (compilationUnitsByVersion plan))
       \<and> (\<forall>v. unitsAt plan v =
                expectedUnits independently
                  (filter (versioned c this releases v) (notSkipped c this names d)))
       \<and> (\<forall>v. (map_of (compilationUnitsByVersion plan) v = None) =
                (filter (versioned c this releases v) (notSkipped c this names d) = []))
       \<and> (\<forall>w \<in> set (notSkipped c this names d). \<exists>v. versioned c this releases v w)
       \<and> (\<not> independently \<longrightarrow>
            (\<forall>e \<in> set (compilationUnitsByVersion plan). length (snd e) = 1))
       \<and> (independently \<longrightarrow> unitCount plan = length (notSkipped c this names d))"
proof -
  let ?L = "notSkipped c this names d"
  have "planHolds c this releases independently emptyPlan []"
    by (simp add: planHolds_def emptyPlan_def unitsAt_def expectedUnits_def unitCount_def)
  with assms have "planHolds c this releases independently plan ([] @ ?L)"
    by (rule planContracts_holds)
  then have dist: "distinct (map fst (compilationUnitsByVersion plan))"
    and nonempty: "\<forall>e \<in> set (compilationUnitsByVersion plan). snd e \<noteq> []"
    and units: "\<And>v. unitsAt plan v =
                  expectedUnits independently (filter (versioned c this releases v) ?L)"
    and vers: "\<forall>w \<in> set ?L. \<exists>v. versioned c this releases v w"
    and count: "independently \<longrightarrow> unitCount plan = length ?L"
    by (simp_all add: planHolds_def)
  have empty: "\<And>ws. (expectedUnits independently ws = []) = (ws = [])"
    by (simp add: expectedUnits_def)
  have none: "\<And>v. (map_of (compilationUnitsByVersion plan) v = None) =
                (filter (versioned c this releases v) ?L = [])"
  proof -
    fix v
    show "(map_of (compilationUnitsByVersion plan) v = None) =
                (filter (versioned c this releases v) ?L = [])"
    proof (cases "map_of (compilationUnitsByVersion plan) v")
      case None
      then have "unitsAt plan v = []" by (simp add: unitsAt_def)
      with units[of v]
      have "expectedUnits independently
              (filter (versioned c this releases v) (notSkipped c this names d)) = []"
        by simp
      with empty None show ?thesis by simp
    next
      case (Some us)
      then have "(v, us) \<in> set (compilationUnitsByVersion plan)" by (rule map_of_SomeD)
      with nonempty have "us \<noteq> []" by auto
      moreover from Some have "unitsAt plan v = us" by (simp add: unitsAt_def)
      ultimately have "expectedUnits independently
              (filter (versioned c this releases v) (notSkipped c this names d)) \<noteq> []"
        using units[of v] by simp
      then have "filter (versioned c this releases v) (notSkipped c this names d) \<noteq> []"
        by (simp add: empty)
      with Some show ?thesis by simp
    qed
  qed
  have one: "\<not> independently \<Longrightarrow>
      \<forall>e \<in> set (compilationUnitsByVersion plan). length (snd e) = 1"
  proof
    fix e assume b: "\<not> independently" and e: "e \<in> set (compilationUnitsByVersion plan)"
    with dist have "map_of (compilationUnitsByVersion plan) (fst e) = Some (snd e)"
      by (cases e) simp
    then have "unitsAt plan (fst e) = snd e" by (simp add: unitsAt_def)
    with units[of "fst e"] b show "length (snd e) = 1"
      using nonempty e by (auto simp: expectedUnits_def split: if_splits)
  qed
  from dist units none vers one count show ?thesis by blast
qed

lemma plannedSkipA_ok:
  "plannedSkipA i = Inr (fst (projr (plannedSkipA i)), snd (projr (plannedSkipA i)))"
  by (cases i) (simp_all, code_simp+)

lemma plannedABL_ok:
  "plannedABL i = Inr (fst (projr (plannedABL i)), snd (projr (plannedABL i)))"
  by (cases i) (simp_all, code_simp+)

lemma skipA_facts:
  "notSkipped projectSkipA (compilerSkipA True) [''A'', ''B''] newDriver
     = [walkOf ''B'' [''L''] ''^0.6.0'']"
  "filter (versioned projectSkipA (compilerSkipA True) releaseIndex ''0.6.12+commit.27d51765'')
     [walkOf ''B'' [''L''] ''^0.6.0''] = [walkOf ''B'' [''L''] ''^0.6.0'']"
  "expectedUnits True [walkOf ''B'' [''L''] ''^0.6.0''] = [unitOf [''B'', ''L'']]"
  "unitsOf (fst (projr (plannedSkipA True)))
     = [(''0.6.12+commit.27d51765'', [[''/p/B.sol'', ''/p/L.sol'']])]"
  "unitsOf (fst (projr (plannedSkipA False)))
     = [(''0.6.12+commit.27d51765'', [[''/p/B.sol'', ''/p/L.sol'']])]"
  by code_simp+

lemma bothABL_facts:
  "notSkipped projectABL (compilerABL False) [''A'', ''B''] newDriver
     = [walkOf ''A'' [''L''] ''^0.6.0'', walkOf ''B'' [''L''] ''^0.6.0'']"
  "filter (versioned projectABL (compilerABL False) releaseIndex ''0.6.12+commit.27d51765'')
     [walkOf ''A'' [''L''] ''^0.6.0'', walkOf ''B'' [''L''] ''^0.6.0'']
     = [walkOf ''A'' [''L''] ''^0.6.0'', walkOf ''B'' [''L''] ''^0.6.0'']"
  "expectedUnits False [walkOf ''A'' [''L''] ''^0.6.0'', walkOf ''B'' [''L''] ''^0.6.0'']
     = [unitOf [''A'', ''L'', ''B'']]"
  "notSkipped projectABL (compilerABL True) [''A'', ''B''] newDriver
     = [walkOf ''A'' [''L''] ''^0.6.0'', walkOf ''B'' [''L''] ''^0.6.0'']"
  "unitsOf (fst (projr (plannedABL True)))
     = [(''0.6.12+commit.27d51765'', [[''/p/A.sol'', ''/p/L.sol''], [''/p/B.sol'', ''/p/L.sol'']])]"
  by code_simp+

text \<open>
  \<open>A.sol\<close> and \<open>B.sol\<close> importing \<open>L.sol\<close>. With a current artifact for \<open>A\<close> the gate skips \<open>A\<close>
  and the plan has the one unit of \<open>B\<close> in either mode; without artifacts the plan has one
  unit of three files when batched and two units of two files each when independent.
\<close>

theorem plan_shape_witness:
  "plannedSkipA True = Inr (fst (projr (plannedSkipA True)), snd (projr (plannedSkipA True)))
   \<and> notSkipped projectSkipA (compilerSkipA True) [''A'', ''B''] newDriver
       = [walkOf ''B'' [''L''] ''^0.6.0'']
   \<and> unitsAt (fst (projr (plannedSkipA True))) ''0.6.12+commit.27d51765''
       = [unitOf [''B'', ''L'']]
   \<and> unitCount (fst (projr (plannedSkipA True))) = 1
   \<and> unitsOf (fst (projr (plannedSkipA False)))
       = [(''0.6.12+commit.27d51765'', [[''/p/B.sol'', ''/p/L.sol'']])]
   \<and> plannedABL False = Inr (fst (projr (plannedABL False)), snd (projr (plannedABL False)))
   \<and> unitsAt (fst (projr (plannedABL False))) ''0.6.12+commit.27d51765''
       = [unitOf [''A'', ''L'', ''B'']]
   \<and> plannedABL True = Inr (fst (projr (plannedABL True)), snd (projr (plannedABL True)))
   \<and> unitCount (fst (projr (plannedABL True))) = 2
   \<and> unitsOf (fst (projr (plannedABL True)))
       = [(''0.6.12+commit.27d51765'', [[''/p/A.sol'', ''/p/L.sol''], [''/p/B.sol'', ''/p/L.sol'']])]"
proof -
  note skip = plan_shape [OF plannedSkipA_ok [of True, unfolded plannedSkipA_def],
      folded plannedSkipA_def, unfolded skipA_facts(1)]
  note batched = plan_shape [OF plannedABL_ok [of False, unfolded plannedABL_def],
      folded plannedABL_def, unfolded bothABL_facts(1)]
  note indep = plan_shape [OF plannedABL_ok [of True, unfolded plannedABL_def],
      folded plannedABL_def, unfolded bothABL_facts(4)]
  have s1: "unitsAt (fst (projr (plannedSkipA True))) ''0.6.12+commit.27d51765''
       = [unitOf [''B'', ''L'']]"
    using skip [THEN conjunct2, THEN conjunct1, THEN spec, of "''0.6.12+commit.27d51765''"]
    by (simp only: skipA_facts(2,3))
  have s2: "unitCount (fst (projr (plannedSkipA True))) = 1"
    using skip [THEN conjunct2, THEN conjunct2, THEN conjunct2, THEN conjunct2, THEN conjunct2]
    by simp
  have b1: "unitsAt (fst (projr (plannedABL False))) ''0.6.12+commit.27d51765''
       = [unitOf [''A'', ''L'', ''B'']]"
    using batched [THEN conjunct2, THEN conjunct1, THEN spec, of "''0.6.12+commit.27d51765''"]
    by (simp only: bothABL_facts(2,3))
  have i1: "unitCount (fst (projr (plannedABL True))) = 2"
    using indep [THEN conjunct2, THEN conjunct2, THEN conjunct2, THEN conjunct2, THEN conjunct2]
    by simp
  from s1 s2 b1 i1 plannedSkipA_ok [of True] plannedABL_ok [of True] plannedABL_ok [of False]
    skipA_facts(1,5) bothABL_facts(5)
  show ?thesis
    by (simp only: simp_thms)
qed

section \<open>The writer, path by path\<close>

lemma persisting_append:
  "persisting p best (xs @ ys) = persisting p best xs @ persisting p (bestAfter p best xs) ys"
proof (induction xs arbitrary: best)
  case Nil
  then show ?case by (simp add: bestAfter_def)
next
  case (Cons x xs)
  show ?case
  proof (cases "holds p x \<and> (case best of None \<Rightarrow> True | Some s \<Rightarrow> sizeOf x < s)")
    case True
    then have "bestAfter p best (x # xs) = bestAfter p (Some (sizeOf x)) xs"
      by (simp add: bestAfter_def split: list.splits)
    with True Cons.IH[of "Some (sizeOf x)"] show ?thesis by simp
  next
    case False
    then have s1: "persisting p best (x # xs) = persisting p best xs"
      and s2: "persisting p best (x # xs @ ys) = persisting p best (xs @ ys)"
      by auto
    have s3: "bestAfter p best (x # xs) = bestAfter p best xs"
      unfolding bestAfter_def s1 ..
    show ?thesis
      unfolding append_Cons s2 s1 s3 by (rule Cons.IH)
  qed
qed

lemma bestAfter_append:
  "bestAfter p best (xs @ ys) = bestAfter p (bestAfter p best xs) ys"
  by (simp add: persisting_append bestAfter_def split: list.splits)

text \<open>The effect of the loop over the paths of one job on the path \<open>p\<close>.\<close>

lemma writePaths_path:
  assumes "writePaths c dir ptd v res n paths w = (w', None)"
    and "map_of ptd p = Some contractData"
  shows "callsFor p w' =
           callsFor p w @
             (if p \<in> set paths \<and> \<not> alreadySmaller (artifactCache w) p n
              then [\<lparr>forPath = p, fromUnitSize = n, fileName = contractName contractData,
                     withVersion = v, withResult = res\<rparr>]
              else [])
       \<and> map_of (artifactCache w') p =
           (if p \<in> set paths \<and> \<not> alreadySmaller (artifactCache w) p n
            then Some n else map_of (artifactCache w) p)"
  using assms(1)
proof (induction paths arbitrary: w)
  case Nil
  then show ?case by simp
next
  case (Cons q rest)
  show ?case
  proof (cases "map_of ptd q")
    case None
    with assms(2) have "q \<noteq> p" by auto
    with None Cons show ?thesis by simp
  next
    case (Some qd)
    with Cons.prems obtain m compiled where
      m: "contractsOfPath (output res) q = Some m" and
      cc: "map_of m (contractName qd) = Some compiled"
      by (auto split: option.splits)
    show ?thesis
    proof (cases "alreadySmaller (artifactCache w) q n")
      case True
      with Some m cc Cons.prems have r: "writePaths c dir ptd v res n rest w = (w', None)"
        by simp
      from Cons.IH[OF r] True show ?thesis by auto
    next
      case False
      obtain ws r where
        pc: "persistCompiledContract c dir (contractName qd) v (input res) (output res) = (ws, r)"
        by (cases "persistCompiledContract c dir (contractName qd) v (input res) (output res)")
      let ?w1 = "\<lparr>artifactCache = AList.update q n (artifactCache w),
                  persistCalls = persistCalls w @
                    [\<lparr>forPath = q, fromUnitSize = n, fileName = contractName qd,
                      withVersion = v, withResult = res\<rparr>],
                  written = written w @ ws\<rparr>"
      from Some m cc False pc Cons.prems
      have r: "writePaths c dir ptd v res n rest ?w1 = (w', None)"
        by (auto simp: Let_def split: option.splits)
      note ih = Cons.IH[OF r]
      show ?thesis
      proof (cases "q = p")
        case True
        with Some assms(2) have qd: "qd = contractData" by simp
        have "alreadySmaller (artifactCache ?w1) p n"
          using True by (simp add: alreadySmaller_def update_conv')
        with ih True False qd show ?thesis
          by (simp add: callsFor_def update_conv')
      next
        case neq: False
        then have "alreadySmaller (artifactCache ?w1) p n = alreadySmaller (artifactCache w) p n"
          by (simp add: alreadySmaller_def update_conv')
        with ih neq show ?thesis
          by (simp add: callsFor_def update_conv')
      qed
    qed
  qed
qed

lemma alreadySmaller_iff:
  "(p \<in> set (map fst u) \<and> \<not> alreadySmaller cache p (length u))
   = (holds p (v, u, res) \<and> (case map_of cache p of None \<Rightarrow> True | Some s \<Rightarrow> sizeOf (v, u, res) < s))"
  by (auto simp: holds_def sizeOf_def alreadySmaller_def split: option.splits)

lemma writeJob_path:
  assumes "writePaths c dir ptd v res (length u) (map fst u) w = (w', None)"
    and "map_of ptd p = Some contractData"
  shows "callsFor p w' =
           callsFor p w @
             map (callOf p (contractName contractData))
               (persisting p (map_of (artifactCache w) p) [(v, u, res)])
       \<and> map_of (artifactCache w') p = bestAfter p (map_of (artifactCache w) p) [(v, u, res)]"
  using writePaths_path[OF assms] alreadySmaller_iff[of p u "artifactCache w" v res]
  by (auto simp: bestAfter_def callOf_def sizeOf_def)

lemma writeUnits_path:
  assumes "writeUnits c dir ptd v urs w = (w', None)"
    and "map_of ptd p = Some contractData"
  shows "callsFor p w' =
           callsFor p w @
             map (callOf p (contractName contractData))
               (persisting p (map_of (artifactCache w) p) (jobsOfVersion v urs))
       \<and> map_of (artifactCache w') p =
           bestAfter p (map_of (artifactCache w) p) (jobsOfVersion v urs)"
  using assms(1)
proof (induction urs arbitrary: w)
  case Nil
  then show ?case by (simp add: jobsOfVersion_def bestAfter_def)
next
  case (Cons ur urs)
  from Cons.prems obtain w1 where
    a: "writePaths c dir ptd v (snd ur) (length (fst ur)) (map fst (fst ur)) w = (w1, None)" and
    r: "writeUnits c dir ptd v urs w1 = (w', None)"
    by (auto split: prod.splits option.splits)
  have split: "jobsOfVersion v (ur # urs) = [(v, fst ur, snd ur)] @ jobsOfVersion v urs"
    by (simp add: jobsOfVersion_def)
  from writeJob_path[OF a assms(2)] Cons.IH[OF r] show ?case
    unfolding split persisting_append bestAfter_append by simp
qed

lemma writeVersions_path:
  assumes "writeVersions c dir ptd vrs w = (w', None)"
    and "map_of ptd p = Some contractData"
  shows "callsFor p w' =
           callsFor p w @
             map (callOf p (contractName contractData))
               (persisting p (map_of (artifactCache w) p) (jobsOf vrs))
       \<and> map_of (artifactCache w') p = bestAfter p (map_of (artifactCache w) p) (jobsOf vrs)"
  using assms(1)
proof (induction vrs arbitrary: w)
  case Nil
  then show ?case by (simp add: jobsOf_def bestAfter_def)
next
  case (Cons vr vrs)
  from Cons.prems obtain w1 where
    a: "writeUnits c dir ptd (fst (fst vr)) (zip (snd (fst vr)) (snd vr)) w = (w1, None)" and
    r: "writeVersions c dir ptd vrs w1 = (w', None)"
    by (auto split: prod.splits option.splits)
  have split: "jobsOf (vr # vrs) =
      jobsOfVersion (fst (fst vr)) (zip (snd (fst vr)) (snd vr)) @ jobsOf vrs"
    by (simp add: jobsOf_def)
  from writeUnits_path[OF a assms(2)] Cons.IH[OF r] show ?case
    unfolding split persisting_append bestAfter_append by simp
qed

section \<open>Which job persists a path last\<close>

lemma persisting_subset: "set (persisting p best js) \<subseteq> set js"
  by (induction js arbitrary: best) auto

lemma persisting_below:
  "\<forall>x \<in> set (persisting p (Some s) js). sizeOf x < s"
proof (induction js arbitrary: s)
  case Nil
  then show ?case by simp
next
  case (Cons j js)
  show ?case
  proof (cases "holds p j \<and> sizeOf j < s")
    case True
    with Cons.IH[of "sizeOf j"] show ?thesis by auto
  next
    case False
    with Cons.IH[of s] show ?thesis by auto
  qed
qed

lemma persisting_decreasing:
  "sorted_wrt (\<lambda>a b. sizeOf b < sizeOf a) (persisting p best js)"
proof (induction js arbitrary: best)
  case Nil
  then show ?case by simp
next
  case (Cons j js)
  show ?case
  proof (cases "holds p j \<and> (case best of None \<Rightarrow> True | Some s \<Rightarrow> sizeOf j < s)")
    case True
    with Cons.IH[of "Some (sizeOf j)"] persisting_below[of p "sizeOf j" js]
    show ?thesis by simp
  next
    case False
    with Cons.IH[of best] show ?thesis by auto
  qed
qed

lemma persisting_filter:
  "persisting p best js = persisting p best (filter (holds p) js)"
  by (induction js arbitrary: best) auto

lemma persisting_none:
  "\<forall>x \<in> set js. s \<le> sizeOf x \<Longrightarrow> persisting p (Some s) js = []"
  by (induction js) auto

lemma bestAfter_above:
  assumes "\<forall>x \<in> set js. m < sizeOf x"
    and "case best of None \<Rightarrow> True | Some s \<Rightarrow> m < s"
  shows "case bestAfter p best js of None \<Rightarrow> True | Some s \<Rightarrow> m < s"
proof (cases "persisting p best js")
  case Nil
  with assms(2) show ?thesis by (simp add: bestAfter_def)
next
  case (Cons x xs)
  then have "last (x # xs) \<in> set (persisting p best js)"
    by (metis last_in_set list.distinct(1))
  with persisting_subset have "last (x # xs) \<in> set js" by blast
  with assms(1) Cons show ?thesis by (simp add: bestAfter_def)
qed

lemma bestAfter_last:
  "persisting p best js \<noteq> [] \<Longrightarrow>
   bestAfter p best js = Some (sizeOf (last (persisting p best js)))"
  by (cases "persisting p best js") (simp_all add: bestAfter_def)

lemma persisting_winner:
  assumes split: "filter (holds p) js = pre @ j # post"
    and pre: "\<forall>x \<in> set pre. sizeOf j < sizeOf x"
    and post: "\<forall>x \<in> set post. sizeOf j \<le> sizeOf x"
  shows "persisting p None js = persisting p None pre @ [j]"
proof -
  from split have "j \<in> set (filter (holds p) js)" by simp
  then have h: "holds p j" by simp
  have above: "case bestAfter p None pre of None \<Rightarrow> True | Some s \<Rightarrow> sizeOf j < s"
    using pre by (rule bestAfter_above) simp
  from post have none: "persisting p (Some (sizeOf j)) post = []"
    by (rule persisting_none)
  have "persisting p None js = persisting p None (pre @ j # post)"
    using persisting_filter[of p None js] split by simp
  also have "\<dots> = persisting p None pre @ persisting p (bestAfter p None pre) (j # post)"
    by (rule persisting_append)
  also have "persisting p (bestAfter p None pre) (j # post) = [j]"
    using h above none by simp
  finally show ?thesis .
qed

section \<open>What the writer records\<close>

lemma writePaths_ok:
  assumes "writerOk c dir ptd w"
  shows "writerOk c dir ptd (fst (writePaths c dir ptd v res n paths w))"
  using assms
proof (induction paths arbitrary: w)
  case Nil
  then show ?case by simp
next
  case (Cons q rest)
  show ?case
  proof (cases "map_of ptd q")
    case None
    with Cons show ?thesis by simp
  next
    case (Some qd)
    obtain ws r where
      pc: "persistCompiledContract c dir (contractName qd) v (input res) (output res) = (ws, r)"
      by (cases "persistCompiledContract c dir (contractName qd) v (input res) (output res)")
    let ?w1 = "\<lparr>artifactCache = AList.update q n (artifactCache w),
                persistCalls = persistCalls w @
                  [\<lparr>forPath = q, fromUnitSize = n, fileName = contractName qd,
                    withVersion = v, withResult = res\<rparr>],
                written = written w @ ws\<rparr>"
    have ok1: "writerOk c dir ptd ?w1"
      using Cons.prems Some pc
      by (auto simp: writerOk_def writesOf_def dest!: set_update_cases)
    from Cons.IH[OF ok1] Cons.IH[OF Cons.prems] ok1 Cons.prems Some pc show ?thesis
      by (auto simp: Let_def split: option.splits)
  qed
qed

lemma writeUnits_ok:
  assumes "writerOk c dir ptd w"
  shows "writerOk c dir ptd (fst (writeUnits c dir ptd v urs w))"
  using assms
proof (induction urs arbitrary: w)
  case Nil
  then show ?case by simp
next
  case (Cons ur urs)
  let ?r = "writePaths c dir ptd v (snd ur) (length (fst ur)) (map fst (fst ur)) w"
  have ok1: "writerOk c dir ptd (fst ?r)"
    using Cons.prems by (rule writePaths_ok)
  from Cons.IH[OF ok1] ok1 show ?case
    by (cases ?r) (auto split: option.splits)
qed

lemma writeVersions_ok:
  assumes "writerOk c dir ptd w"
  shows "writerOk c dir ptd (fst (writeVersions c dir ptd vrs w))"
  using assms
proof (induction vrs arbitrary: w)
  case Nil
  then show ?case by simp
next
  case (Cons vr vrs)
  let ?r = "writeUnits c dir ptd (fst (fst vr)) (zip (snd (fst vr)) (snd vr)) w"
  have ok1: "writerOk c dir ptd (fst ?r)"
    using Cons.prems by (rule writeUnits_ok)
  from Cons.IH[OF ok1] ok1 show ?case
    by (cases ?r) (auto split: option.splits)
qed

text \<open>
  Claim C2, as amended. Let a persisting run complete. For a contract path \<open>p\<close> that is in
  the planner's contract-path-to-data map, each persist of \<open>p\<close> after the first comes from a
  unit strictly smaller than the one recorded before; so when, among the jobs whose unit
  holds \<open>p\<close>, in the writer's order, \<open>j\<close> has a unit strictly smaller than those before it
  and no larger than those after it, the last persist of \<open>p\<close> is the one made from \<open>j\<close>, and
  the cache records the size of that unit. A path that is not in the map is never
  persisted or recorded. The files written are those of the persist calls, in order.
\<close>

theorem smallest_unit_wins:
  assumes run: "writeVersions c dir pathToData vrs emptyWriter = (w, None)"
  shows "(map_of pathToData p = Some contractData \<longrightarrow>
            sorted_wrt (\<lambda>a b. b < a) (map fromUnitSize (callsFor p w)) \<and>
            (filter (holds p) (jobsOf vrs) = pre @ j # post \<and>
             (\<forall>x \<in> set pre. sizeOf j < sizeOf x) \<and>
             (\<forall>x \<in> set post. sizeOf j \<le> sizeOf x)
             \<longrightarrow> callsFor p w \<noteq> [] \<and>
                 last (callsFor p w) = callOf p (contractName contractData) j \<and>
                 map_of (artifactCache w) p = Some (sizeOf j)))
       \<and> (map_of pathToData p = None \<longrightarrow>
            callsFor p w = [] \<and> map_of (artifactCache w) p = None)
       \<and> written w = concat (map (writesOf c dir) (persistCalls w))"
proof (intro conjI impI)
  have "writerOk c dir pathToData emptyWriter"
    by (simp add: writerOk_def emptyWriter_def)
  then have "writerOk c dir pathToData (fst (writeVersions c dir pathToData vrs emptyWriter))"
    by (rule writeVersions_ok)
  with run have ok: "writerOk c dir pathToData w" by simp
  then show "written w = concat (map (writesOf c dir) (persistCalls w))"
    by (simp add: writerOk_def)
  {
    assume none: "map_of pathToData p = None"
    with ok show "callsFor p w = []"
      by (auto simp: writerOk_def callsFor_def filter_empty_conv)
    from none ok have "p \<notin> fst ` set (artifactCache w)"
      by (auto simp: writerOk_def)
    then show "map_of (artifactCache w) p = None"
      by (simp add: map_of_eq_None_iff)
  }
  {
    assume some: "map_of pathToData p = Some contractData"
    from writeVersions_path[OF run some]
    have calls: "callsFor p w =
        map (callOf p (contractName contractData)) (persisting p None (jobsOf vrs))"
      and cache: "map_of (artifactCache w) p = bestAfter p None (jobsOf vrs)"
      by (simp_all add: callsFor_def emptyWriter_def)
    have "map fromUnitSize (callsFor p w) = map sizeOf (persisting p None (jobsOf vrs))"
      unfolding calls by (simp add: callOf_def comp_def)
    then show "sorted_wrt (\<lambda>a b. b < a) (map fromUnitSize (callsFor p w))"
      using persisting_decreasing[of p None "jobsOf vrs"]
      by (simp add: sorted_wrt_map)
    assume h: "filter (holds p) (jobsOf vrs) = pre @ j # post \<and>
             (\<forall>x \<in> set pre. sizeOf j < sizeOf x) \<and>
             (\<forall>x \<in> set post. sizeOf j \<le> sizeOf x)"
    then have win: "persisting p None (jobsOf vrs) = persisting p None pre @ [j]"
      using persisting_winner by blast
    with calls show "callsFor p w \<noteq> []"
      and "last (callsFor p w) = callOf p (contractName contractData) j"
      by simp_all
    from win have "bestAfter p None (jobsOf vrs) = Some (sizeOf j)"
      by (simp add: bestAfter_last)
    with cache show "map_of (artifactCache w) p = Some (sizeOf j)"
      by simp
  }
qed

lemma writtenAB_completes: "writtenAB = (fst writtenAB, None)"
  by code_simp

lemma writtenAB_facts:
  "map_of dataAB ''/p/B.sol'' = Some dataB"
  "filter (holds ''/p/B.sol'') (jobsOf resultsAB) = [jobAB] @ jobB # []"
  "sizeOf jobAB = 2"
  "sizeOf jobB = 1"
  "contractName dataB = ''B''"
  by code_simp+

lemma writtenAB_files:
  "map producedFrom (written (fst writtenAB)) =
     [(''art/A-A.json'', ''A'', [''/p/A.sol'', ''/p/B.sol'']),
      (''art/A-B.json'', ''B'', [''/p/A.sol'', ''/p/B.sol'']),
      (''art/B-A.json'', ''A'', [''/p/A.sol'', ''/p/B.sol'']),
      (''art/B-B.json'', ''B'', [''/p/A.sol'', ''/p/B.sol'']),
      (''art/B-B.json'', ''B'', [''/p/B.sol''])]"
  "fst (compileAsync_run projectAB compilerAB newDriver) = written (fst writtenAB)"
  by code_simp+

text \<open>
  \<open>A.sol\<close> imports \<open>B.sol\<close>, both requested, compiled independently: \<open>B\<close> is persisted from the
  unit of \<open>A\<close> first and then again from its own, smaller unit, which is what is left.
\<close>

theorem smallest_unit_wins_witness:
  "writtenAB = (fst writtenAB, None)
   \<and> map_of dataAB ''/p/B.sol'' = Some dataB
   \<and> filter (holds ''/p/B.sol'') (jobsOf resultsAB) = [jobAB] @ jobB # []
   \<and> sizeOf jobB < sizeOf jobAB
   \<and> callsFor ''/p/B.sol'' (fst writtenAB) \<noteq> []
   \<and> last (callsFor ''/p/B.sol'' (fst writtenAB)) = callOf ''/p/B.sol'' ''B'' jobB
   \<and> map_of (artifactCache (fst writtenAB)) ''/p/B.sol'' = Some 1
   \<and> callsFor ''/p/L.sol'' (fst writtenAB) = []
   \<and> fst (compileAsync_run projectAB compilerAB newDriver) = written (fst writtenAB)
   \<and> map producedFrom (written (fst writtenAB)) =
     [(''art/A-A.json'', ''A'', [''/p/A.sol'', ''/p/B.sol'']),
      (''art/A-B.json'', ''B'', [''/p/A.sol'', ''/p/B.sol'']),
      (''art/B-A.json'', ''A'', [''/p/A.sol'', ''/p/B.sol'']),
      (''art/B-B.json'', ''B'', [''/p/A.sol'', ''/p/B.sol'']),
      (''art/B-B.json'', ''B'', [''/p/B.sol''])]"
  using
    smallest_unit_wins [OF writtenAB_completes [unfolded writtenAB_def],
      where p = "''/p/B.sol''" and contractData = dataB and pre = "[jobAB]" and j = jobB
        and post = "[]"]
    smallest_unit_wins [OF writtenAB_completes [unfolded writtenAB_def],
      where p = "''/p/L.sol''"]
    writtenAB_completes writtenAB_facts writtenAB_files
  by (simp add: writtenAB_def dataAB_def)

text \<open>
  Counterexample to claim C2 as stated: \<open>L.sol\<close> is in the unit of \<open>A\<close> (two files) and in the
  unit of \<open>B\<close> (three files) and is not a requested contract. An artifact for \<open>L\<close> is written
  from each unit; the one produced from the larger unit, \<open>B-L.json\<close>, is written last and
  stays.
\<close>

theorem dependency_not_arbitrated:
  "unitsOf (fst (projr (planContracts projectABLM compilerABLM True releaseIndex [''A'', ''B'']
                   (emptyPlan, newDriver))))
     = [(''0.6.12+commit.27d51765'',
         [[''/p/A.sol'', ''/p/L.sol''], [''/p/B.sol'', ''/p/L.sol'', ''/p/M.sol'']])]
   \<and> map producedFrom (fst (compileAsync_run projectABLM compilerABLM newDriver)) =
     [(''art/A-A.json'', ''A'', [''/p/A.sol'', ''/p/L.sol'']),
      (''art/A-L.json'', ''L'', [''/p/A.sol'', ''/p/L.sol'']),
      (''art/B-B.json'', ''B'', [''/p/B.sol'', ''/p/L.sol'', ''/p/M.sol'']),
      (''art/B-L.json'', ''L'', [''/p/B.sol'', ''/p/L.sol'', ''/p/M.sol'']),
      (''art/B-M.json'', ''M'', [''/p/B.sol'', ''/p/L.sol'', ''/p/M.sol''])]"
  by code_simp

section \<open>A compiled record that is not there\<close>

text \<open>
  Claim C7, at the input on which the code departs from it. \<open>A.sol\<close> is requested and
  imports \<open>L.sol\<close>. When the output has no key for \<open>/p/A.sol\<close> under \<open>contracts\<close> (the file
  defines no contract) and no empty key, reading the contract name of \<open>undefined\<close> throws a
  \<open>TypeError\<close>, before the check that raises the "not found" error is reached. When the key
  is there and only the contract name is missing, that check raises the error.
\<close>

theorem missing_key_type_error:
  "compileAsync_run projectNoA (newCompiler projectNoA None (options False [''A''] None)) newDriver
     = ([], Inl TypeError)
   \<and> compileAsync_run projectOtherA (newCompiler projectOtherA None (options False [''A''] None))
       newDriver
     = ([], Inl (MissingContractError ''A'' ''/p/A.sol''))"
  by code_simp

section \<open>Two roots in one unit\<close>








end
